theory Spec2Isabelle
  imports Complex_Main "HOL-Library.Word" "HOL-Library.AList"
begin

unbundle bit_operations_syntax

section \<open>Data model of \<open>bloom_filter.hpp\<close>\<close>

text \<open>
  Machine integers are words of the width the C++ type has on the 64-bit targets the
  extension is built for: \<open>uint8_t\<close> is \<open>8 word\<close>, \<open>uint32_t\<close> is \<open>32 word\<close>,
  \<open>uint64_t\<close> and \<open>size_t\<close> are \<open>64 word\<close>. A \<open>double\<close> is its IEEE-754 binary64 bit
  pattern, which is what \<open>serialize\<close> stores.
\<close>

type_synonym byte = "8 word"
type_synonym double = "64 word"

text \<open>
  The members of \<open>OctoBloomFilter\<close> (the trailing underscore of the C++ names is dropped).
  \<open>bits\<close> is the buffer \<open>bits_\<close> points to, with the length it was allocated with.
\<close>

record OctoBloomFilter =
  bits :: "byte list"
  num_hashes :: "32 word"
  expected_count :: "64 word"
  false_positive_rate :: double
  bit_array_size :: "64 word"
  byte_array_size :: "64 word"

text \<open>
  What stops a call before it returns: undefined behaviour of the C++ (a division by zero,
  an access outside the buffer, a floating-point conversion whose result does not fit, the
  use of a freed or unconstructed object) and the errors PostgreSQL raises with
  \<open>ereport(ERROR, ...)\<close>.
\<close>

datatype error =
    DivisionByZero
  | OutOfBounds
  | UndefinedConversion
  | InvalidPointer
  | AllocationFailure
  | UndefinedColumn

section \<open>Hashing\<close>

text \<open>\<open>simple_hash\<close>: \<open>hash = ((hash << 5) + hash) + bytes[i]\<close>, from 5381.\<close>

fun simple_hash_loop :: "64 word \<Rightarrow> byte list \<Rightarrow> 64 word" where
  "simple_hash_loop hash [] = hash"
| "simple_hash_loop hash (b # bs) = simple_hash_loop ((push_bit 5 hash + hash) + ucast b) bs"

definition simple_hash :: "byte list \<Rightarrow> 64 word" where
  "simple_hash data = simple_hash_loop 5381 data"

text \<open>
  \<open>hash1\<close>. PostgreSQL's \<open>hash_any\<close> is not part of the repository: it is the parameter
  \<open>hash_any\<close>, a function from the bytes to the \<open>Datum\<close> it returns.
\<close>

definition hash1 :: "(byte list \<Rightarrow> 64 word) \<Rightarrow> byte list \<Rightarrow> 64 word" where
  "hash1 hash_any data =
     (if data = [] then 0
      else let hash_datum = hash_any data in
        if hash_datum = 0 then simple_hash data else hash_datum)"

text \<open>\<open>hash2\<close>: xor the byte in, multiply by the FNV prime, fold the high half down.\<close>

fun hash2_loop :: "64 word \<Rightarrow> byte list \<Rightarrow> 64 word" where
  "hash2_loop hash [] = hash"
| "hash2_loop hash (b # bs) =
     (let h1 = hash XOR ucast b;
          h2 = h1 * 0x100000001b3;
          h3 = h2 XOR drop_bit 32 h2
      in hash2_loop h3 bs)"

definition hash2 :: "byte list \<Rightarrow> 64 word" where
  "hash2 data = (if data = [] then 1 else hash2_loop 0x9e3779b97f4a7c15 data)"

definition doubleHash :: "(byte list \<Rightarrow> 64 word) \<Rightarrow> byte list \<Rightarrow> 64 word \<times> 64 word" where
  "doubleHash hash_any data = (hash1 hash_any data, hash2 data)"

section \<open>add, mightContain, remove, clear\<close>

text \<open>
  The loop of \<open>add\<close>, from counter \<open>i\<close> on. \<open>hash % bit_array_size_\<close> with a zero
  divisor and a write outside the buffer are undefined behaviour.
\<close>

function add_loop :: "OctoBloomFilter \<Rightarrow> 64 word \<Rightarrow> 64 word \<Rightarrow> 32 word \<Rightarrow> error + OctoBloomFilter" where
  "add_loop f h1 h2 i =
     (if i < num_hashes f then
        (let hash = h1 + ucast i * h2 in
         if bit_array_size f = 0 then Inl DivisionByZero
         else
           let index = hash mod bit_array_size f;
               byte_index = unat (index div 8);
               bit_mask = (push_bit (unat (index mod 8)) 1 :: byte)
           in if byte_index < length (bits f)
              then add_loop (f\<lparr>bits := (bits f)[byte_index := (bits f ! byte_index) OR bit_mask]\<rparr>)
                     h1 h2 (i + 1)
              else Inl OutOfBounds)
      else Inr f)"
  by pat_completeness auto
termination
proof (relation "measure (\<lambda>(f, h1, h2, i). unat (num_hashes f) - unat i)")
  show "wf (measure (\<lambda>(f, h1, h2, i). unat (num_hashes f) - unat i))"
    by simp
next
  fix f :: OctoBloomFilter and h1 h2 :: "64 word" and i :: "32 word"
    and hash index :: "64 word" and byte_index :: nat and bit_mask :: byte
  assume lt: "i < num_hashes f"
  then have "unat i < unat (num_hashes f)"
    by (simp add: word_less_nat_alt)
  moreover have "unat (i + 1) = unat i + 1"
    using lt by (metis add_cancel_left_left inc_i linorder_le_less_linear olen_add_eqv
        unat_plus_simple unsigned_0 unsigned_1 word_less_1)
  ultimately show "((f\<lparr>bits := (bits f)[byte_index := (bits f ! byte_index) OR bit_mask]\<rparr>,
         h1, h2, i + 1), (f, h1, h2, i))
       \<in> measure (\<lambda>(f, h1, h2, i). unat (num_hashes f) - unat i)"
    by simp
qed

definition add :: "(byte list \<Rightarrow> 64 word) \<Rightarrow> OctoBloomFilter \<Rightarrow> byte list \<Rightarrow> error + OctoBloomFilter" where
  "add hash_any f data = (case doubleHash hash_any data of (h1, h2) \<Rightarrow> add_loop f h1 h2 0)"

text \<open>The loop of \<open>mightContain\<close>: false at the first unset bit, true when none is found.\<close>

function mightContain_loop :: "OctoBloomFilter \<Rightarrow> 64 word \<Rightarrow> 64 word \<Rightarrow> 32 word \<Rightarrow> error + bool" where
  "mightContain_loop f h1 h2 i =
     (if i < num_hashes f then
        (let hash = h1 + ucast i * h2 in
         if bit_array_size f = 0 then Inl DivisionByZero
         else
           let index = hash mod bit_array_size f;
               byte_index = unat (index div 8);
               bit_mask = (push_bit (unat (index mod 8)) 1 :: byte)
           in if byte_index < length (bits f)
              then (if (bits f ! byte_index) AND bit_mask = 0 then Inr False
                    else mightContain_loop f h1 h2 (i + 1))
              else Inl OutOfBounds)
      else Inr True)"
  by pat_completeness auto
termination
proof (relation "measure (\<lambda>(f, h1, h2, i). unat (num_hashes f) - unat i)")
  show "wf (measure (\<lambda>(f, h1, h2, i). unat (num_hashes f) - unat i))"
    by simp
next
  fix f :: OctoBloomFilter and h1 h2 :: "64 word" and i :: "32 word"
  assume lt: "i < num_hashes f"
  then have "unat i < unat (num_hashes f)"
    by (simp add: word_less_nat_alt)
  moreover have "unat (i + 1) = unat i + 1"
    using lt by (metis add_cancel_left_left inc_i linorder_le_less_linear olen_add_eqv
        unat_plus_simple unsigned_0 unsigned_1 word_less_1)
  ultimately show "((f, h1, h2, i + 1), (f, h1, h2, i))
       \<in> measure (\<lambda>(f, h1, h2, i). unat (num_hashes f) - unat i)"
    by simp
qed

definition mightContain :: "(byte list \<Rightarrow> 64 word) \<Rightarrow> OctoBloomFilter \<Rightarrow> byte list \<Rightarrow> error + bool" where
  "mightContain hash_any f data =
     (case doubleHash hash_any data of (h1, h2) \<Rightarrow> mightContain_loop f h1 h2 0)"

text \<open>\<open>remove\<close> reports a warning and changes nothing.\<close>

definition remove_warning :: string where
  "remove_warning = ''Remove operation not supported for regular Bloom filter''"

definition remove :: "OctoBloomFilter \<Rightarrow> byte list \<Rightarrow> string \<times> OctoBloomFilter" where
  "remove f data = (remove_warning, f)"

text \<open>\<open>clear\<close>: \<open>memset(bits_, 0, byte_array_size_)\<close>.\<close>

definition clear :: "OctoBloomFilter \<Rightarrow> error + OctoBloomFilter" where
  "clear f =
     (let n = unat (byte_array_size f) in
      if n \<le> length (bits f)
      then Inr (f\<lparr>bits := replicate n 0 @ drop n (bits f)\<rparr>)
      else Inl OutOfBounds)"

definition getMemoryUsage :: "OctoBloomFilter \<Rightarrow> 64 word" where
  "getMemoryUsage f = (bit_array_size f + 7) div 8"

section \<open>Serialization\<close>

text \<open>
  \<open>serialize\<close> and \<open>deserialize\<close> copy the fields through \<open>reinterpret_cast\<close>, in the
  byte order of the machine; the supported targets are little-endian. \<open>le_bytes n w\<close> are
  the \<open>n\<close> low bytes of \<open>w\<close>, lowest first, and \<open>le_word\<close> reads them back.
\<close>

fun le_bytes :: "nat \<Rightarrow> 64 word \<Rightarrow> byte list" where
  "le_bytes 0 w = []"
| "le_bytes (Suc n) w = ucast w # le_bytes n (drop_bit 8 w)"

fun le_word :: "byte list \<Rightarrow> 64 word" where
  "le_word [] = 0"
| "le_word (b # bs) = ucast b OR push_bit 8 (le_word bs)"

definition getSerializedSize :: "OctoBloomFilter \<Rightarrow> 64 word" where
  "getSerializedSize f = 8 * 3 + 4 + (bit_array_size f + 7) div 8"

text \<open>
  \<open>serialize\<close> writes into the caller's \<open>buffer\<close>: 28 bytes of header, then
  \<open>byte_array_size_\<close> bytes copied from \<open>bits_\<close>. The result is the buffer after the
  call. Reading past \<open>bits_\<close> or writing past the buffer is undefined behaviour.
\<close>

definition serialize :: "OctoBloomFilter \<Rightarrow> byte list \<Rightarrow> error + byte list" where
  "serialize f buffer =
     (let n = unat (byte_array_size f) in
      if length buffer < 28 + n \<or> length (bits f) < n then Inl OutOfBounds
      else Inr (le_bytes 8 (expected_count f) @ le_bytes 8 (bit_array_size f) @
                le_bytes 8 (false_positive_rate f) @ le_bytes 4 (ucast (num_hashes f)) @
                take n (bits f) @ drop (28 + n) buffer))"

text \<open>
  \<open>deserialize\<close> works on the object it is called on and returns its \<open>bool\<close> with the
  object as it leaves it. The four header fields are assigned before the second size check.
  \<open>alloc_ok\<close> says whether \<open>palloc\<close> succeeds; it raises an error otherwise. A buffer
  shorter than the \<open>size\<close> the caller passes (\<open>size'\<close> below) makes the reads undefined.
\<close>

definition deserialize ::
  "bool \<Rightarrow> OctoBloomFilter \<Rightarrow> byte list \<Rightarrow> 64 word \<Rightarrow> error + (bool \<times> OctoBloomFilter)" where
  "deserialize alloc_ok f buffer size' =
     (if size' < 8 * 3 + 4 then Inr (False, f)
      else if length buffer < 28 then Inl OutOfBounds
      else
        let f1 = f\<lparr>expected_count := le_word (take 8 buffer),
                   bit_array_size := le_word (take 8 (drop 8 buffer)),
                   false_positive_rate := le_word (take 8 (drop 16 buffer)),
                   num_hashes := ucast (le_word (take 4 (drop 24 buffer)))\<rparr>;
            expected_size = 8 * 3 + 4 + (bit_array_size f1 + 7) div 8
        in if size' < expected_size then Inr (False, f1)
           else
             let f2 = f1\<lparr>byte_array_size := (bit_array_size f1 + 7) div 8\<rparr> in
             if \<not> alloc_ok then Inl AllocationFailure
             else if length buffer < 28 + unat (byte_array_size f2) then Inl OutOfBounds
             else Inr (True, f2\<lparr>bits := take (unat (byte_array_size f2)) (drop 28 buffer)\<rparr>))"

section \<open>Doubles and the constructor\<close>

text \<open>
  The fields of a binary64 pattern. A finite double has the magnitude
  \<open>d_significand d * 2 ^ (e - 1075)\<close> with \<open>e = max 1 (d_exponent d)\<close>; exponent
  field 2047 is an infinity or a NaN.
\<close>

definition d_sign :: "double \<Rightarrow> bool" where
  "d_sign d = bit d 63"

definition d_exponent :: "double \<Rightarrow> nat" where
  "d_exponent d = unat (take_bit 11 (drop_bit 52 d))"

definition d_fraction :: "double \<Rightarrow> nat" where
  "d_fraction d = unat (take_bit 52 d)"

definition d_significand :: "double \<Rightarrow> nat" where
  "d_significand d = (if d_exponent d = 0 then d_fraction d else 2 ^ 52 + d_fraction d)"

definition d_is_finite :: "double \<Rightarrow> bool" where
  "d_is_finite d \<longleftrightarrow> d_exponent d \<noteq> 2047"

text \<open>The integer part of the magnitude of a finite double.\<close>

definition d_trunc :: "double \<Rightarrow> nat" where
  "d_trunc d =
     (let e = max 1 (d_exponent d) in
      if 1075 \<le> e then d_significand d * 2 ^ (e - 1075)
      else d_significand d div 2 ^ (1075 - e))"


text \<open>
  \<open>static_cast<size_t>\<close> and \<open>static_cast<uint32_t>\<close> of a double discard the fractional
  part; the behaviour is undefined when the truncated value does not fit the target type.
\<close>

definition size_t_of_double :: "double \<Rightarrow> error + 64 word" where
  "size_t_of_double d =
     (if \<not> d_is_finite d then Inl UndefinedConversion
      else let t = d_trunc d in
        if t = 0 then Inr 0
        else if d_sign d \<or> 2 ^ 64 \<le> t then Inl UndefinedConversion
        else Inr (word_of_nat t))"

definition uint32_of_double :: "double \<Rightarrow> error + 32 word" where
  "uint32_of_double d =
     (if \<not> d_is_finite d then Inl UndefinedConversion
      else let t = d_trunc d in
        if t = 0 then Inr 0
        else if d_sign d \<or> 2 ^ 32 \<le> t then Inl UndefinedConversion
        else Inr (word_of_nat t))"

text \<open>
  The floating-point operations the constructor calls are those of the hardware and the C
  library, not of the repository: they are the parameter \<open>fp\<close>. Negation flips the sign
  bit.
\<close>

record fp_ops =
  fp_of_uint64 :: "64 word \<Rightarrow> double"
  fp_mul :: "double \<Rightarrow> double \<Rightarrow> double"
  fp_div :: "double \<Rightarrow> double \<Rightarrow> double"
  fp_log :: "double \<Rightarrow> double"
  fp_pow :: "double \<Rightarrow> double \<Rightarrow> double"
  fp_round :: "double \<Rightarrow> double"

definition fp_neg :: "double \<Rightarrow> double" where
  "fp_neg d = d XOR push_bit 63 1"

definition fp_two :: double where
  "fp_two = 0x4000000000000000"

text \<open>
  \<open>- (expected_count * std::log(false_positive_rate)) / std::pow(std::log(2), 2)\<close>
\<close>

definition bit_array_size_expr :: "fp_ops \<Rightarrow> 64 word \<Rightarrow> double \<Rightarrow> double" where
  "bit_array_size_expr fp n p =
     fp_div fp (fp_neg (fp_mul fp (fp_of_uint64 fp n) (fp_log fp p)))
               (fp_pow fp (fp_log fp fp_two) fp_two)"

text \<open>
  \<open>std::round((static_cast<double>(bit_array_size_) / expected_count) * std::log(2))\<close>
\<close>

definition num_hashes_expr :: "fp_ops \<Rightarrow> 64 word \<Rightarrow> 64 word \<Rightarrow> double" where
  "num_hashes_expr fp m n =
     fp_round fp (fp_mul fp (fp_div fp (fp_of_uint64 fp m) (fp_of_uint64 fp n)) (fp_log fp fp_two))"

text \<open>The two values before \<open>// Ensure minimum values\<close>.\<close>

definition raw_bit_array_size :: "fp_ops \<Rightarrow> 64 word \<Rightarrow> double \<Rightarrow> error + 64 word" where
  "raw_bit_array_size fp n p = size_t_of_double (bit_array_size_expr fp n p)"

definition raw_num_hashes :: "fp_ops \<Rightarrow> 64 word \<Rightarrow> 64 word \<Rightarrow> error + 32 word" where
  "raw_num_hashes fp m n = uint32_of_double (num_hashes_expr fp m n)"

text \<open>
  The constructor. \<open>alloc_ok\<close> says whether \<open>palloc(byte_array_size_)\<close> succeeds.
\<close>

definition OctoBloomFilter_ctor ::
  "fp_ops \<Rightarrow> bool \<Rightarrow> 64 word \<Rightarrow> double \<Rightarrow> error + OctoBloomFilter" where
  "OctoBloomFilter_ctor fp alloc_ok n p =
     (case raw_bit_array_size fp n p of
        Inl e \<Rightarrow> Inl e
      | Inr m0 \<Rightarrow>
          (case raw_num_hashes fp m0 n of
             Inl e \<Rightarrow> Inl e
           | Inr k0 \<Rightarrow>
               let m = max m0 64;
                   k1 = max k0 1;
                   k = min k1 50;
                   nbytes = (m + 7) div 8
               in if alloc_ok
                  then Inr \<lparr>bits = replicate (unat nbytes) 0, num_hashes = k,
                            expected_count = n, false_positive_rate = p,
                            bit_array_size = m, byte_array_size = nbytes\<rparr>
                  else Inl AllocationFailure))"

section \<open>The registry of \<open>shared_memory.cpp\<close>\<close>

type_synonym Oid = "32 word"
type_synonym addr = nat

text \<open>
  A pointer to a filter: null, the address of a chunk \<open>palloc\<close> returned, or the
  indeterminate value of a field nothing has been assigned to.
\<close>

datatype pointer = Null | Addr addr | Indeterminate

text \<open>
  The \<open>palloc\<close>ed chunks that hold filter objects: a chunk holds a constructed filter, or
  is allocated with no constructor having completed on it. A freed chunk is no longer in
  the heap.
\<close>

datatype heap_obj = Constructed OctoBloomFilter | Unconstructed

text \<open>
  \<open>BloomRegistryEntry\<close>. The fields \<open>filter\<close>, \<open>expected_count\<close> and
  \<open>false_positive_rate\<close> carry the prefix \<open>entry_\<close>; \<open>lock\<close> is never assigned or
  read.
\<close>

record BloomRegistryEntry =
  table_oid :: Oid
  attnum :: "16 word"
  entry_filter :: pointer
  entry_expected_count :: "64 word"
  entry_false_positive_rate :: double
  current_count :: "64 word"
  is_valid :: bool

text \<open>
  \<open>BloomSharedState\<close>. The hash table \<open>bloom_registry\<close> is the list of its entries
  under their keys; \<open>hash_search\<close> is \<open>map_of\<close> for \<open>HASH_FIND\<close>, and \<open>HASH_ENTER\<close>
  returns the entry of the key when there is one and makes a new one otherwise.
\<close>

record BloomSharedState =
  bloom_registry :: "((Oid \<times> 16 word) \<times> BloomRegistryEntry) list"
  total_memory :: "64 word"
  used_memory :: "64 word"
  max_filters :: int

text \<open>
  The state a backend works on: the structure in shared memory (once some backend has
  created it), whether this backend's pointer \<open>bloom_shared_state\<close> is set, and the
  backend's \<open>palloc\<close>ed filter objects. Addresses are handed out in increasing order.
\<close>

record pg_state =
  shmem :: "BloomSharedState option"
  bloom_shared_state :: bool
  heap :: "addr \<rightharpoonup> heap_obj"
  next_addr :: addr

text \<open>
  What PostgreSQL answers during a call: whether shared memory can be had, the size
  \<open>calculate_shared_memory_size\<close> computes from \<open>hash_estimate_size\<close>, whether the hash
  table has room for a new entry, and whether the \<open>palloc\<close> of the filter object and the
  \<open>palloc\<close> of its bit buffer succeed. Each failure is raised as an error.
\<close>

record pg_env =
  shmem_ok :: bool
  shmem_size :: "64 word"
  enter_ok :: bool
  object_alloc_ok :: bool
  bits_alloc_ok :: bool

definition init_shared_memory :: "pg_env \<Rightarrow> pg_state \<Rightarrow> (error + unit) \<times> pg_state" where
  "init_shared_memory env s =
     (if \<not> shmem_ok env then (Inl AllocationFailure, s)
      else case shmem s of
        Some st \<Rightarrow> (Inr (), s\<lparr>bloom_shared_state := True\<rparr>)
      | None \<Rightarrow>
          (Inr (), s\<lparr>shmem := Some \<lparr>bloom_registry = [], total_memory = shmem_size env,
                                    used_memory = 0, max_filters = 10\<rparr>,
                       bloom_shared_state := True\<rparr>))"

definition get_bloom_filter :: "pg_state \<Rightarrow> Oid \<Rightarrow> 16 word \<Rightarrow> pointer" where
  "get_bloom_filter s oid att =
     (if \<not> bloom_shared_state s then Null
      else case shmem s of
        None \<Rightarrow> Null
      | Some st \<Rightarrow>
          (case map_of (bloom_registry st) (oid, att) of
             Some entry \<Rightarrow> if is_valid entry then entry_filter entry else Null
           | None \<Rightarrow> Null))"

text \<open>Storing a changed entry back under its key.\<close>

definition put_entry :: "pg_state \<Rightarrow> Oid \<times> 16 word \<Rightarrow> BloomRegistryEntry \<Rightarrow> pg_state" where
  "put_entry s key entry =
     s\<lparr>shmem := map_option
         (\<lambda>st. st\<lparr>bloom_registry := AList.update key entry (bloom_registry st)\<rparr>) (shmem s)\<rparr>"

text \<open>
  \<open>if (entry->filter) { entry->filter->~OctoBloomFilter(); pfree(entry->filter); }\<close>.
  The destructor is the default one: the bit buffer is not released with the object.
\<close>

definition destroy_filter :: "pg_state \<Rightarrow> pointer \<Rightarrow> error + pg_state" where
  "destroy_filter s p =
     (case p of
        Null \<Rightarrow> Inr s
      | Indeterminate \<Rightarrow> Inl InvalidPointer
      | Addr a \<Rightarrow>
          (case heap s a of
             None \<Rightarrow> Inl InvalidPointer
           | Some obj \<Rightarrow> Inr (s\<lparr>heap := (heap s)(a := None)\<rparr>)))"

text \<open>
  \<open>entry->filter = (OctoBloomFilter*)palloc(sizeof(OctoBloomFilter));\<close>
  \<open>new (entry->filter) OctoBloomFilter(expected_count, false_positive_rate);\<close>
  The pointer is stored once \<open>palloc\<close> has returned, the constructor runs after that.
\<close>

definition new_filter ::
  "fp_ops \<Rightarrow> pg_env \<Rightarrow> pg_state \<Rightarrow> Oid \<times> 16 word \<Rightarrow> BloomRegistryEntry \<Rightarrow> 64 word \<Rightarrow> double
     \<Rightarrow> (error + BloomRegistryEntry) \<times> pg_state" where
  "new_filter fp env s key entry n p =
     (if \<not> object_alloc_ok env then (Inl AllocationFailure, s)
      else
        let a = next_addr s;
            entry1 = entry\<lparr>entry_filter := Addr a\<rparr>;
            s1 = put_entry (s\<lparr>heap := (heap s)(a \<mapsto> Unconstructed), next_addr := a + 1\<rparr>) key entry1
        in case OctoBloomFilter_ctor fp (bits_alloc_ok env) n p of
             Inl e \<Rightarrow> (Inl e, s1)
           | Inr f \<Rightarrow> (Inr entry1, s1\<lparr>heap := (heap s1)(a \<mapsto> Constructed f)\<rparr>))"

text \<open>The branch \<open>if (found)\<close> of \<open>register_bloom_filter\<close>, on the entry found.\<close>

definition register_found ::
  "fp_ops \<Rightarrow> pg_env \<Rightarrow> pg_state \<Rightarrow> Oid \<times> 16 word \<Rightarrow> BloomRegistryEntry \<Rightarrow> 64 word \<Rightarrow> double
     \<Rightarrow> (error + bool) \<times> pg_state" where
  "register_found fp env s key entry n p =
     (case destroy_filter s (entry_filter entry) of
        Inl e \<Rightarrow> (Inl e, s)
      | Inr s1 \<Rightarrow>
          (case new_filter fp env s1 key entry n p of
             (Inl e, s2) \<Rightarrow> (Inl e, s2)
           | (Inr entry1, s2) \<Rightarrow>
               (Inr True,
                put_entry s2 key
                  (entry1\<lparr>entry_expected_count := n, entry_false_positive_rate := p,
                           current_count := 0, is_valid := True\<rparr>))))"

text \<open>The rest of it, on the entry \<open>HASH_ENTER\<close> has just made for a new key.\<close>

definition register_new ::
  "fp_ops \<Rightarrow> pg_env \<Rightarrow> pg_state \<Rightarrow> Oid \<times> 16 word \<Rightarrow> 64 word \<Rightarrow> double
     \<Rightarrow> (error + bool) \<times> pg_state" where
  "register_new fp env s key n p =
     (if \<not> enter_ok env then (Inl AllocationFailure, s)
      else
        let entry = \<lparr>table_oid = fst key, attnum = snd key, entry_filter = Indeterminate,
                      entry_expected_count = n, entry_false_positive_rate = p,
                      current_count = 0, is_valid = True\<rparr>
        in case new_filter fp env (put_entry s key entry) key entry n p of
             (Inl e, s2) \<Rightarrow> (Inl e, s2)
           | (Inr entry1, s2) \<Rightarrow> (Inr True, s2))"

definition register_bloom_filter ::
  "fp_ops \<Rightarrow> pg_env \<Rightarrow> pg_state \<Rightarrow> Oid \<Rightarrow> 16 word \<Rightarrow> 64 word \<Rightarrow> double
     \<Rightarrow> (error + bool) \<times> pg_state" where
  "register_bloom_filter fp env s oid att n p =
     (case (if bloom_shared_state s then (Inr (), s) else init_shared_memory env s) of
        (Inl e, s0) \<Rightarrow> (Inl e, s0)
      | (Inr u, s0) \<Rightarrow>
          (if \<not> bloom_shared_state s0 then (Inr False, s0)
           else (case shmem s0 of
                   None \<Rightarrow> (Inl InvalidPointer, s0)
                 | Some st \<Rightarrow>
                     (case map_of (bloom_registry st) (oid, att) of
                        Some entry \<Rightarrow> register_found fp env s0 (oid, att) entry n p
                      | None \<Rightarrow> register_new fp env s0 (oid, att) n p))))"

text \<open>
  \<open>unregister_bloom_filter\<close>: \<open>HASH_REMOVE\<close> takes the entry out of the table and returns
  it; its filter is then destroyed.
\<close>

definition unregister_bloom_filter :: "pg_state \<Rightarrow> Oid \<Rightarrow> 16 word \<Rightarrow> error + pg_state" where
  "unregister_bloom_filter s oid att =
     (if \<not> bloom_shared_state s then Inr s
      else case shmem s of
        None \<Rightarrow> Inl InvalidPointer
      | Some st \<Rightarrow>
          (case map_of (bloom_registry st) (oid, att) of
             None \<Rightarrow> Inr s
           | Some entry \<Rightarrow>
               destroy_filter
                 (s\<lparr>shmem := Some (st\<lparr>bloom_registry := AList.delete (oid, att) (bloom_registry st)\<rparr>)\<rparr>)
                 (entry_filter entry)))"

section \<open>The SQL function \<open>octo_bloom_might_contain\<close>\<close>

text \<open>
  The arguments after PostgreSQL has unpacked them: the table, the attribute number
  \<open>get_attnum\<close> found for the column name (\<open>InvalidAttrNumber\<close> when there is no such
  column), and what \<open>DatumGetTextP\<close> returned for the value: no pointer, or the bytes
  between \<open>VARDATA\<close> and the end of the value.
\<close>

definition InvalidAttrNumber :: "16 word" where
  "InvalidAttrNumber = 0"

definition octo_bloom_might_contain ::
  "(byte list \<Rightarrow> 64 word) \<Rightarrow> pg_state \<Rightarrow> Oid \<Rightarrow> 16 word \<Rightarrow> byte list option \<Rightarrow> error + bool" where
  "octo_bloom_might_contain hash_any s oid att value_text =
     (if att = InvalidAttrNumber then Inl UndefinedColumn
      else case get_bloom_filter s oid att of
        Null \<Rightarrow> Inr True
      | Indeterminate \<Rightarrow> Inl InvalidPointer
      | Addr a \<Rightarrow>
          (case heap s a of
             Some (Constructed f) \<Rightarrow>
               if bit_array_size f = 0 then Inr True
               else (case value_text of
                       None \<Rightarrow> Inr True
                     | Some v \<Rightarrow> mightContain hash_any f v)
           | Some Unconstructed \<Rightarrow> Inl InvalidPointer
           | None \<Rightarrow> Inl InvalidPointer))"

section \<open>Notions used in the statements\<close>

text \<open>The bit position the loops of \<open>add\<close> and \<open>mightContain\<close> compute at counter \<open>i\<close>.\<close>

definition probe :: "OctoBloomFilter \<Rightarrow> 64 word \<Rightarrow> 64 word \<Rightarrow> 32 word \<Rightarrow> 64 word" where
  "probe f h1 h2 i = (h1 + ucast i * h2) mod bit_array_size f"

text \<open>The bit at a position lies in the buffer and is set.\<close>

definition bit_is_set :: "byte list \<Rightarrow> 64 word \<Rightarrow> bool" where
  "bit_is_set bs index \<longleftrightarrow>
     unat (index div 8) < length bs \<and>
     (bs ! unat (index div 8)) AND (push_bit (unat (index mod 8)) 1 :: byte) \<noteq> 0"

text \<open>
  The buffer has the length the constructor and \<open>deserialize\<close> allocate it with,
  \<open>(bit_array_size_ + 7) / 8\<close> bytes as the code computes it.
\<close>

definition sized :: "OctoBloomFilter \<Rightarrow> bool" where
  "sized f \<longleftrightarrow>
     byte_array_size f = (bit_array_size f + 7) div 8 \<and>
     length (bits f) = unat (byte_array_size f)"

text \<open>
  The state the constructor leaves a filter in, as far as the buffer goes: a bit-array size
  that is not zero, and a buffer of \<open>(bit_array_size_ + 7) / 8\<close> bytes with no wrap-around
  in that sum.
\<close>

definition consistent :: "OctoBloomFilter \<Rightarrow> bool" where
  "consistent f \<longleftrightarrow>
     bit_array_size f \<noteq> 0 \<and>
     unat (bit_array_size f) + 7 < 2 ^ 64 \<and>
     byte_array_size f = (bit_array_size f + 7) div 8 \<and>
     length (bits f) = unat (byte_array_size f)"

text \<open>
  The states of a filter after \<open>x\<close> has been added to it: right after the \<open>add\<close>, after
  further calls of \<open>add\<close> and \<open>remove\<close>, and in the object \<open>deserialize\<close> has filled from
  the buffer \<open>serialize\<close> wrote (of \<open>getSerializedSize()\<close> bytes).
\<close>

inductive after_add :: "(byte list \<Rightarrow> 64 word) \<Rightarrow> byte list \<Rightarrow> OctoBloomFilter \<Rightarrow> bool"
  for hash_any :: "byte list \<Rightarrow> 64 word" and x :: "byte list" where
  added: "consistent f \<Longrightarrow> add hash_any f x = Inr f' \<Longrightarrow> after_add hash_any x f'"
| added_more: "after_add hash_any x f \<Longrightarrow> add hash_any f y = Inr f' \<Longrightarrow> after_add hash_any x f'"
| removed: "after_add hash_any x f \<Longrightarrow> remove f y = (w, f') \<Longrightarrow> after_add hash_any x f'"
| round_trip:
    "after_add hash_any x f \<Longrightarrow> length buffer = unat (getSerializedSize f) \<Longrightarrow>
     serialize f buffer = Inr buffer' \<Longrightarrow>
     deserialize alloc_ok g buffer' (getSerializedSize f) = Inr (True, g') \<Longrightarrow>
     after_add hash_any x g'"

text \<open>
  The results of the floating-point operations on the operands that arise for
  \<open>expected_count = 4\<close> and \<open>false_positive_rate = 0.1\<close> (IEEE-754 arithmetic, \<open>log\<close> and
  \<open>pow\<close> of the C library); every other operand gives a NaN here.
\<close>

definition fp_nan :: double where
  "fp_nan = 0x7FF8000000000000"

definition fp_tenth :: double where
  "fp_tenth = 0x3FB999999999999A"

definition sample_fp :: fp_ops where
  "sample_fp =
     \<lparr>fp_of_uint64 = (\<lambda>n. if n = 4 then 0x4010000000000000
                           else if n = 19 then 0x4033000000000000 else fp_nan),
      fp_mul = (\<lambda>a b. if a = 0x4010000000000000 \<and> b = 0xC0026BB1BBB55515 then 0xC0226BB1BBB55515
                       else if a = 0x4013000000000000 \<and> b = 0x3FE62E42FEFA39EF then 0x400A56EF8EC924CC
                       else fp_nan),
      fp_div = (\<lambda>a b. if a = 0x40226BB1BBB55515 \<and> b = 0x3FDEBFBDFF82C58E then 0x40332B8CC58A1684
                       else if a = 0x4033000000000000 \<and> b = 0x4010000000000000 then 0x4013000000000000
                       else fp_nan),
      fp_log = (\<lambda>a. if a = 0x3FB999999999999A then 0xC0026BB1BBB55515
                     else if a = 0x4000000000000000 then 0x3FE62E42FEFA39EF else fp_nan),
      fp_pow = (\<lambda>a b. if a = 0x3FE62E42FEFA39EF \<and> b = 0x4000000000000000 then 0x3FDEBFBDFF82C58E
                       else fp_nan),
      fp_round = (\<lambda>a. if a = 0x400A56EF8EC924CC then 0x4008000000000000 else fp_nan)\<rparr>"

text \<open>The keys of the registry in table order, and the entry stored under a key.\<close>

definition registry_keys :: "pg_state \<Rightarrow> (Oid \<times> 16 word) list" where
  "registry_keys s = (case shmem s of None \<Rightarrow> [] | Some st \<Rightarrow> map fst (bloom_registry st))"

definition registry_entry :: "pg_state \<Rightarrow> Oid \<times> 16 word \<Rightarrow> BloomRegistryEntry option" where
  "registry_entry s key = (case shmem s of None \<Rightarrow> None | Some st \<Rightarrow> map_of (bloom_registry st) key)"

text \<open>A pointer refers to a filter object the constructor has completed on.\<close>

definition functional :: "pg_state \<Rightarrow> pointer \<Rightarrow> bool" where
  "functional s q \<longleftrightarrow> (\<exists>a g. q = Addr a \<and> heap s a = Some (Constructed g))"



section \<open>Sample values\<close>

text \<open>
  The filter the constructor makes for \<open>expected_count = 4\<close>, \<open>false_positive_rate = 0.1\<close>,
  a registry that holds it under the key \<open>(16384, 1)\<close>, the same registry after the key
  has been registered again, and an environment in which every allocation succeeds.
\<close>

definition sample_filter :: OctoBloomFilter where
  "sample_filter =
     \<lparr>bits = [0, 0, 0, 0, 0, 0, 0, 0], num_hashes = 3, expected_count = 4,
      false_positive_rate = fp_tenth, bit_array_size = 64, byte_array_size = 8\<rparr>"

definition sample_entry :: BloomRegistryEntry where
  "sample_entry =
     \<lparr>table_oid = 16384, attnum = 1, entry_filter = Addr 0, entry_expected_count = 4,
      entry_false_positive_rate = fp_tenth, current_count = 0, is_valid = True\<rparr>"

definition sample_state :: pg_state where
  "sample_state =
     \<lparr>shmem = Some \<lparr>bloom_registry = [((16384, 1), sample_entry)], total_memory = 0x100000,
                     used_memory = 0, max_filters = 10\<rparr>,
      bloom_shared_state = True,
      heap = [0 \<mapsto> Constructed sample_filter],
      next_addr = 1\<rparr>"

definition replaced_state :: pg_state where
  "replaced_state =
     sample_state\<lparr>shmem := Some \<lparr>bloom_registry = [((16384, 1), sample_entry\<lparr>entry_filter := Addr 1\<rparr>)],
                     total_memory = 0x100000, used_memory = 0, max_filters = 10\<rparr>,
        heap := [1 \<mapsto> Constructed sample_filter],
        next_addr := 2\<rparr>"

definition sample_env :: pg_env where
  "sample_env = \<lparr>shmem_ok = True, shmem_size = 0x100000, enter_ok = True,
                  object_alloc_ok = True, bits_alloc_ok = True\<rparr>"

section \<open>The loops of \<open>add\<close> and \<open>mightContain\<close>\<close>

declare add_loop.simps [simp del]
declare mightContain_loop.simps [simp del]

lemma mask_nonzero: "k < 8 \<Longrightarrow> (push_bit k 1 :: byte) \<noteq> 0"
  by (simp add: push_bit_eq_mult)

lemma mask_set_after_or: "k < 8 \<Longrightarrow> ((b :: byte) OR push_bit k 1) AND push_bit k 1 \<noteq> 0"
  using mask_nonzero [of k] by (simp add: word_ao_absorbs)

lemma mask_kept_by_or: "(b :: byte) AND m \<noteq> 0 \<Longrightarrow> (b OR m') AND m \<noteq> 0"
  by (metis (no_types, lifting) and.commute and.left_commute and_zero_eq
    word_ao_absorbs(3))

lemma word_succ_le: "(i :: 32 word) < n \<Longrightarrow> i \<le> j \<Longrightarrow> j \<noteq> i \<Longrightarrow> i + 1 \<le> j"
  by (metis inc_le word_le_less_eq)

lemma word_succ_unat: "(i :: 32 word) < n \<Longrightarrow> unat (i + 1) = unat i + 1"
  by (metis add_cancel_left_left inc_i linorder_le_less_linear olen_add_eqv
        unat_plus_simple unsigned_0 unsigned_1 word_less_1)

lemma bit_is_set_update:
  "bit_is_set bs idx \<Longrightarrow> k < length bs \<Longrightarrow> bit_is_set (bs[k := bs ! k OR m]) idx"
  by (auto simp: bit_is_set_def nth_list_update mask_kept_by_or)

lemma mod8_lt: "unat ((x :: 64 word) mod 8) < 8"
  by (simp add: unat_mod)

lemma bit_is_set_new:
  "unat (idx div 8) < length bs \<Longrightarrow>
   bit_is_set (bs[unat (idx div 8) := bs ! unat (idx div 8) OR push_bit (unat (idx mod 8)) 1]) idx"
  using mask_set_after_or [OF mod8_lt, of _ idx] by (simp add: bit_is_set_def)

text \<open>What a completed run of the loop of \<open>add\<close> leaves unchanged, keeps set, and sets.\<close>

lemma add_loop_fields:
  "add_loop f h1 h2 i = Inr f' \<Longrightarrow>
     num_hashes f' = num_hashes f \<and> bit_array_size f' = bit_array_size f \<and>
     byte_array_size f' = byte_array_size f \<and> expected_count f' = expected_count f \<and>
     false_positive_rate f' = false_positive_rate f \<and> length (bits f') = length (bits f)"
proof (induction f h1 h2 i rule: add_loop.induct)
  case (1 f h1 h2 i)
  show ?case
  proof (cases "i < num_hashes f")
    case False
    with "1.prems" show ?thesis by (simp add: add_loop.simps)
  next
    case True
    let ?idx = "probe f h1 h2 i"
    let ?g = "f\<lparr>bits := (bits f)[unat (?idx div 8) := (bits f ! unat (?idx div 8)) OR push_bit (unat (?idx mod 8)) 1]\<rparr>"
    from True "1.prems" have nz: "bit_array_size f \<noteq> 0"
      by (auto simp: add_loop.simps [of f] Let_def split: if_splits)
    from True "1.prems" nz have inb: "unat (?idx div 8) < length (bits f)"
      by (auto simp: add_loop.simps [of f] Let_def probe_def split: if_splits)
    from True "1.prems" nz inb have rec: "add_loop ?g h1 h2 (i + 1) = Inr f'"
      by (simp add: add_loop.simps [of f] Let_def probe_def)
    have "num_hashes f' = num_hashes ?g \<and> bit_array_size f' = bit_array_size ?g \<and>
     byte_array_size f' = byte_array_size ?g \<and> expected_count f' = expected_count ?g \<and>
     false_positive_rate f' = false_positive_rate ?g \<and> length (bits f') = length (bits ?g)"
      using "1.IH" [OF True refl nz refl refl refl inb [unfolded probe_def]] rec
      by (simp add: probe_def)
    then show ?thesis by simp
  qed
qed

lemma add_loop_unfold:
  "i < num_hashes f \<Longrightarrow> add_loop f h1 h2 i = Inr f' \<Longrightarrow>
     bit_array_size f \<noteq> 0 \<and> unat (probe f h1 h2 i div 8) < length (bits f) \<and>
     add_loop (f\<lparr>bits := (bits f)[unat (probe f h1 h2 i div 8) :=
        (bits f ! unat (probe f h1 h2 i div 8)) OR push_bit (unat (probe f h1 h2 i mod 8)) 1]\<rparr>)
       h1 h2 (i + 1) = Inr f'"
  by (auto simp: add_loop.simps [of f] Let_def probe_def split: if_splits)

lemma add_loop_mono:
  "add_loop f h1 h2 i = Inr f' \<Longrightarrow> bit_is_set (bits f) idx \<Longrightarrow> bit_is_set (bits f') idx"
proof (induction f h1 h2 i rule: add_loop.induct)
  case (1 f h1 h2 i)
  show ?case
  proof (cases "i < num_hashes f")
    case False
    with "1.prems" show ?thesis by (simp add: add_loop.simps)
  next
    case True
    note u = add_loop_unfold [OF True "1.prems"(1)]
    from u have nz: "bit_array_size f \<noteq> 0" and inb: "unat (probe f h1 h2 i div 8) < length (bits f)"
      by simp_all
    show ?thesis
      using "1.IH" [OF True refl nz refl refl refl inb [unfolded probe_def]] u
        bit_is_set_update [OF "1.prems"(2) inb]
      by (simp add: probe_def)
  qed
qed

lemma add_loop_sets:
  "add_loop f h1 h2 i = Inr f' \<Longrightarrow> i \<le> j \<Longrightarrow> j < num_hashes f \<Longrightarrow>
     bit_is_set (bits f') (probe f h1 h2 j)"
proof (induction f h1 h2 i rule: add_loop.induct)
  case (1 f h1 h2 i)
  from "1.prems" have True: "i < num_hashes f" by simp
  note u = add_loop_unfold [OF True "1.prems"(1)]
  from u have nz: "bit_array_size f \<noteq> 0" and inb: "unat (probe f h1 h2 i div 8) < length (bits f)"
    by simp_all
  let ?g = "f\<lparr>bits := (bits f)[unat (probe f h1 h2 i div 8) :=
        (bits f ! unat (probe f h1 h2 i div 8)) OR push_bit (unat (probe f h1 h2 i mod 8)) 1]\<rparr>"
  from u have rec: "add_loop ?g h1 h2 (i + 1) = Inr f'" by simp
  show ?case
  proof (cases "j = i")
    case True
    have "bit_is_set (bits ?g) (probe f h1 h2 i)"
      using bit_is_set_new [OF inb] by simp
    from add_loop_mono [OF rec this] True show ?thesis by simp
  next
    case False
    with "1.prems" \<open>i < num_hashes f\<close> have "i + 1 \<le> j"
      by (simp add: word_succ_le)
    then have "bit_is_set (bits f') (probe ?g h1 h2 j)"
      using "1.IH" [OF \<open>i < num_hashes f\<close> refl nz refl refl refl inb [unfolded probe_def]] rec "1.prems"(3)
      by (simp add: probe_def)
    then show ?thesis by (simp add: probe_def)
  qed
qed


lemma mightContain_loop_true:
  "bit_array_size f \<noteq> 0 \<Longrightarrow>
   (\<And>j. i \<le> j \<Longrightarrow> j < num_hashes f \<Longrightarrow> bit_is_set (bits f) (probe f h1 h2 j)) \<Longrightarrow>
   mightContain_loop f h1 h2 i = Inr True"
proof (induction f h1 h2 i rule: mightContain_loop.induct)
  case (1 f h1 h2 i)
  show ?case
  proof (cases "i < num_hashes f")
    case False
    then show ?thesis by (simp add: mightContain_loop.simps)
  next
    case True
    from "1.prems"(2) [of i] True have here: "bit_is_set (bits f) (probe f h1 h2 i)" by simp
    then have inb: "unat (probe f h1 h2 i div 8) < length (bits f)"
      and nzb: "(bits f ! unat (probe f h1 h2 i div 8)) AND push_bit (unat (probe f h1 h2 i mod 8)) 1 \<noteq> 0"
      by (simp_all add: bit_is_set_def)
    have "mightContain_loop f h1 h2 (i + 1) = Inr True"
    proof (rule "1.IH" [OF True refl "1.prems"(1) refl refl refl inb [unfolded probe_def] nzb [unfolded probe_def] "1.prems"(1)])
      fix j assume "i + 1 \<le> j" "j < num_hashes f"
      moreover from this True have "i \<le> j"
        using word_succ_unat [OF True] by (simp add: word_le_nat_alt)
      ultimately show "bit_is_set (bits f) (probe f h1 h2 j)"
        using "1.prems"(2) by simp
    qed
    with True "1.prems"(1) inb nzb show ?thesis
      by (simp add: mightContain_loop.simps [of f h1 h2 i] Let_def probe_def)
  qed
qed

text \<open>On a consistent filter every position lies in the buffer, so \<open>add\<close> returns.\<close>

lemma probe_less: "bit_array_size f \<noteq> 0 \<Longrightarrow> probe f h1 h2 i < bit_array_size f"
  by (simp add: probe_def word_mod_less_divisor word_neq_0_conv)

lemma unat_bytes_for_bits:
  "unat (m :: 64 word) + 7 < 2 ^ 64 \<Longrightarrow> unat ((m + 7) div 8) = (unat m + 7) div 8"
proof -
  assume "unat m + 7 < 2 ^ 64"
  then have "unat (m + 7) = unat m + 7"
    by (simp add: unat_word_ariths)
  then show ?thesis
    by (simp add: unat_div)
qed

lemma probe_in_bounds:
  assumes "consistent f"
  shows "unat (probe f h1 h2 i div 8) < length (bits f)"
proof -
  let ?m = "bit_array_size f"
  from assms have nz: "?m \<noteq> 0" and nowrap: "unat ?m + 7 < 2 ^ 64"
    and len: "length (bits f) = unat ((?m + 7) div 8)"
    by (simp_all add: consistent_def)
  have "unat (probe f h1 h2 i) < unat ?m"
    using probe_less [OF nz] by (simp add: word_less_nat_alt)
  moreover have "unat (probe f h1 h2 i div 8) = unat (probe f h1 h2 i) div 8"
    by (simp add: unat_div)
  moreover have "unat (?m + 7) = unat ?m + 7"
    using nowrap by (simp add: unat_word_ariths)
  then have "unat ((?m + 7) div 8) = (unat ?m + 7) div 8"
    by (simp add: unat_div)
  ultimately show ?thesis
    using len by simp
qed

lemma consistent_bits_update:
  "consistent f \<Longrightarrow> consistent (f\<lparr>bits := (bits f)[k := v]\<rparr>)"
  by (simp add: consistent_def)

lemma add_loop_total:
  "consistent f \<Longrightarrow> \<exists>f'. add_loop f h1 h2 i = Inr f'"
proof (induction f h1 h2 i rule: add_loop.induct)
  case (1 f h1 h2 i)
  show ?case
  proof (cases "i < num_hashes f")
    case False
    then show ?thesis by (simp add: add_loop.simps)
  next
    case True
    from "1.prems" have nz: "bit_array_size f \<noteq> 0" by (simp add: consistent_def)
    note inb = probe_in_bounds [OF "1.prems", of h1 h2 i]
    have "\<exists>f'. add_loop (f\<lparr>bits := (bits f)[unat (probe f h1 h2 i div 8) :=
        (bits f ! unat (probe f h1 h2 i div 8)) OR push_bit (unat (probe f h1 h2 i mod 8)) 1]\<rparr>)
       h1 h2 (i + 1) = Inr f'"
      using "1.IH" [OF True refl nz refl refl refl inb [unfolded probe_def]]
        consistent_bits_update [OF "1.prems"]
      by (simp add: probe_def)
    with True nz inb show ?thesis
      by (simp add: add_loop.simps [of f h1 h2 i] Let_def probe_def)
  qed
qed

lemma add_loop_consistent:
  "consistent f \<Longrightarrow> add_loop f h1 h2 i = Inr f' \<Longrightarrow> consistent f'"
  using add_loop_fields [of f h1 h2 i f'] by (simp add: consistent_def)

lemma add_total: "consistent f \<Longrightarrow> \<exists>f'. add hash_any f x = Inr f' \<and> consistent f'"
  using add_loop_total add_loop_consistent
  by (fastforce simp: add_def doubleHash_def)

lemma add_consistent: "consistent f \<Longrightarrow> add hash_any f x = Inr f' \<Longrightarrow> consistent f'"
  using add_loop_consistent by (auto simp: add_def doubleHash_def)

lemma add_bit_array_size: "add hash_any f x = Inr f' \<Longrightarrow> bit_array_size f' = bit_array_size f"
  using add_loop_fields [of f "hash1 hash_any x" "hash2 x" 0 f']
  by (simp add: add_def doubleHash_def)




lemma clear_bit_array_size: "clear f = Inr f' \<Longrightarrow> bit_array_size f' = bit_array_size f"
  by (auto simp: clear_def Let_def split: if_splits)

lemma remove_unchanged: "remove f x = (w, f') \<Longrightarrow> f' = f"
  by (auto simp: remove_def)

section \<open>Serialization\<close>

lemma length_le_bytes: "length (le_bytes n w) = n"
  by (induction n arbitrary: w) simp_all

lemma le_bytes_numeral:
  "le_bytes (numeral k) w = ucast w # le_bytes (pred_numeral k) (drop_bit 8 w)"
  by (simp add: numeral_eq_Suc)

lemma le_word_le_bytes: "le_word (le_bytes n w) = take_bit (8 * n) w"
proof (induction n arbitrary: w)
  case 0
  show ?case by simp
next
  case (Suc n)
  have "(ucast (ucast w :: byte) :: 64 word) OR push_bit 8 (take_bit (8 * n) (drop_bit 8 w))
      = take_bit (8 * Suc n) w"
    by (rule bit_eqI) (auto simp: bit_simps)
  with Suc show ?case by simp
qed

lemma le_word_le_bytes_8: "le_word (le_bytes 8 w) = w"
  by (simp add: le_word_le_bytes take_bit_word_eq_self)

lemma le_word_le_bytes_4: "ucast (le_word (le_bytes 4 (ucast (k :: 32 word)))) = k"
proof -
  have "(ucast (take_bit 32 (ucast k :: 64 word)) :: 32 word) = k"
    by (rule bit_eqI) (auto simp: bit_simps)
  then show ?thesis by (simp add: le_word_le_bytes)
qed

lemma consistent_sized: "consistent f \<Longrightarrow> sized f"
  by (simp add: consistent_def sized_def)

lemma sized_size:
  assumes "sized f"
  shows "unat (byte_array_size f) < 2 ^ 61"
    and "unat (getSerializedSize f) = 28 + unat (byte_array_size f)"
    and "getSerializedSize f = 28 + byte_array_size f"
proof -
  from assms have b: "byte_array_size f = (bit_array_size f + 7) div 8"
    by (simp add: sized_def)
  have "unat ((bit_array_size f + 7) div 8) = unat (bit_array_size f + 7) div 8"
    by (simp add: unat_div)
  moreover have "unat (bit_array_size f + 7) < 2 ^ 64"
    using unsigned_less [of "bit_array_size f + 7", where 'a = nat] by simp
  ultimately show small: "unat (byte_array_size f) < 2 ^ 61"
    by (simp add: b)
  show eq: "getSerializedSize f = 28 + byte_array_size f"
    by (simp add: getSerializedSize_def b)
  show "unat (getSerializedSize f) = 28 + unat (byte_array_size f)"
    using small by (simp add: eq unat_word_ariths)
qed

lemma serialize_sized:
  assumes "sized f" and "length buffer = unat (getSerializedSize f)"
  shows "serialize f buffer =
     Inr (le_bytes 8 (expected_count f) @ le_bytes 8 (bit_array_size f) @
          le_bytes 8 (false_positive_rate f) @ le_bytes 4 (ucast (num_hashes f)) @ bits f)"
proof -
  from assms(1) have len: "length (bits f) = unat (byte_array_size f)"
    by (simp add: sized_def)
  with assms(2) sized_size(2) [OF assms(1)] show ?thesis
    by (simp add: serialize_def Let_def)
qed

lemma deserialize_serialized:
  assumes c: "sized f"
    and buf: "buffer' = le_bytes 8 (expected_count f) @ le_bytes 8 (bit_array_size f) @
          le_bytes 8 (false_positive_rate f) @ le_bytes 4 (ucast (num_hashes f)) @ bits f"
  shows "deserialize alloc_ok g buffer' (getSerializedSize f) =
     (if alloc_ok then Inr (True, f) else Inl AllocationFailure)"
proof -
  from c have len: "length (bits f) = unat (byte_array_size f)"
    and b: "byte_array_size f = (bit_array_size f + 7) div 8"
    by (simp_all add: sized_def)
  note sz = sized_size [OF c]
  have h1: "take 8 buffer' = le_bytes 8 (expected_count f)"
    and h2: "take 8 (drop 8 buffer') = le_bytes 8 (bit_array_size f)"
    and h3: "take 8 (drop 16 buffer') = le_bytes 8 (false_positive_rate f)"
    and h4: "take 4 (drop 24 buffer') = le_bytes 4 (ucast (num_hashes f))"
    and h5: "drop 28 buffer' = bits f"
    and h6: "length buffer' = 28 + length (bits f)"
    by (simp_all add: buf length_le_bytes)
  have ge: "\<not> getSerializedSize f < 28"
    using sz(2) by (simp add: word_less_nat_alt)
  have eq: "8 * 3 + 4 + (bit_array_size f + 7) div 8 = getSerializedSize f"
    by (simp add: getSerializedSize_def)
  have "f\<lparr>expected_count := expected_count f, bit_array_size := bit_array_size f,
          false_positive_rate := false_positive_rate f, num_hashes := num_hashes f,
          byte_array_size := byte_array_size f, bits := bits f\<rparr> = f"
    by simp
  have g: "g\<lparr>expected_count := expected_count f, bit_array_size := bit_array_size f,
          false_positive_rate := false_positive_rate f, num_hashes := num_hashes f,
          byte_array_size := byte_array_size f, bits := bits f\<rparr> = f"
    by (cases f, cases g) simp
  have ge2: "\<not> getSerializedSize f < 28 + byte_array_size f"
    by (simp add: sz(3))
  show ?thesis
    unfolding deserialize_def
    using ge ge2 g
    by (simp add: Let_def h1 h2 h3 h4 h5 h6 le_word_le_bytes_8 le_word_le_bytes_4 eq
        b [symmetric] len [symmetric])
qed

text \<open>What \<open>deserialize\<close> answers to a size that is too small, and to one that is not.\<close>

lemma deserialize_rejects_short_header:
  "sz < 28 \<Longrightarrow> deserialize ok f buffer sz = Inr (False, f)"
  by (simp add: deserialize_def)

lemma deserialize_rejects_short_body:
  assumes "28 \<le> sz" and "28 \<le> length buffer"
    and "unat (le_word (take 8 (drop 8 buffer))) + 7 < 2 ^ 64"
    and "unat sz < 28 + (unat (le_word (take 8 (drop 8 buffer))) + 7) div 8"
  shows "\<exists>f'. deserialize ok f buffer sz = Inr (False, f')"
proof -
  let ?m = "le_word (take 8 (drop 8 buffer))"
  have b: "unat ((?m + 7) div 8) = (unat ?m + 7) div 8"
    using assms(3) by (rule unat_bytes_for_bits)
  with assms(3) have "unat ((?m + 7) div 8) < 2 ^ 61" by simp
  then have "unat (28 + (?m + 7) div 8) = 28 + (unat ?m + 7) div 8"
    using b by (simp add: unat_word_ariths)
  with assms(4) have "sz < 28 + (?m + 7) div 8"
    by (simp add: word_less_nat_alt)
  moreover from assms(1) have "\<not> sz < 28" by simp
  ultimately show ?thesis
    using assms(2) by (simp add: deserialize_def Let_def)
qed

lemma deserialize_accepts:
  assumes "28 \<le> sz" and "unat sz \<le> length buffer"
    and "unat (le_word (take 8 (drop 8 buffer))) + 7 < 2 ^ 64"
    and "28 + (unat (le_word (take 8 (drop 8 buffer))) + 7) div 8 \<le> unat sz"
  shows "\<exists>f'. deserialize True f buffer sz = Inr (True, f')"
proof -
  let ?m = "le_word (take 8 (drop 8 buffer))"
  have b: "unat ((?m + 7) div 8) = (unat ?m + 7) div 8"
    using assms(3) by (rule unat_bytes_for_bits)
  with assms(3) have "unat ((?m + 7) div 8) < 2 ^ 61" by simp
  then have "unat (28 + (?m + 7) div 8) = 28 + (unat ?m + 7) div 8"
    using b by (simp add: unat_word_ariths)
  with assms(4) have "\<not> sz < 28 + (?m + 7) div 8"
    by (simp add: word_less_nat_alt)
  moreover from assms(1) have "\<not> sz < 28" by simp
  moreover from assms(1,2) have "\<not> length buffer < 28"
    by (simp add: word_le_nat_alt)
  moreover from assms(2,4) b have "\<not> length buffer < 28 + unat ((?m + 7) div 8)"
    by simp
  ultimately show ?thesis
    by (simp add: deserialize_def Let_def)
qed

lemma deserialize_success_bit_array_size:
  "deserialize ok f buffer sz = Inr (True, f') \<Longrightarrow>
   bit_array_size f' = le_word (take 8 (drop 8 buffer))"
  by (auto simp: deserialize_def Let_def split: if_splits)

lemma round_trip_bit_array_size:
  assumes "sized f" and "length buffer = unat (getSerializedSize f)"
    and "serialize f buffer = Inr buffer'"
    and "deserialize ok g buffer' (getSerializedSize f) = Inr (b, g')"
  shows "bit_array_size g' = bit_array_size f"
proof -
  from assms(3) serialize_sized [OF assms(1,2)]
  have "buffer' = le_bytes 8 (expected_count f) @ le_bytes 8 (bit_array_size f) @
          le_bytes 8 (false_positive_rate f) @ le_bytes 4 (ucast (num_hashes f)) @ bits f"
    by simp
  from deserialize_serialized [OF assms(1) this, of ok g] assms(4)
  show ?thesis
    by (auto split: if_splits)
qed

text \<open>The constructor, a \<open>deserialize\<close> that returns true, \<open>add\<close> and \<open>clear\<close> give sized filters.\<close>

lemma deserialize_sized:
  "deserialize ok g buffer sz = Inr (True, g') \<Longrightarrow> sized g'"
  by (auto simp: deserialize_def Let_def sized_def split: if_splits)

lemma add_sized: "sized f \<Longrightarrow> add hash_any f x = Inr f' \<Longrightarrow> sized f'"
  using add_loop_fields [of f "hash1 hash_any x" "hash2 x" 0 f']
  by (simp add: add_def doubleHash_def sized_def)

lemma clear_sized: "sized f \<Longrightarrow> clear f = Inr f' \<Longrightarrow> sized f'"
  by (auto simp: clear_def Let_def sized_def split: if_splits)

text \<open>Every state after an \<open>add\<close> of \<open>x\<close> is consistent and has the bits of \<open>x\<close> set.\<close>

lemma after_add_invariant:
  assumes "after_add hash_any x f"
  shows "consistent f \<and>
    (\<forall>j. j < num_hashes f \<longrightarrow>
       bit_is_set (bits f) (probe f (hash1 hash_any x) (hash2 x) j))"
  using assms
proof (induction rule: after_add.induct)
  case (added f f')
  then have loop: "add_loop f (hash1 hash_any x) (hash2 x) 0 = Inr f'"
    by (simp add: add_def doubleHash_def)
  note fields = add_loop_fields [OF loop]
  have "bit_is_set (bits f') (probe f' (hash1 hash_any x) (hash2 x) j)" if "j < num_hashes f'" for j
    using add_loop_sets [OF loop, of j] that fields by (simp add: probe_def)
  with added add_consistent show ?case by blast
next
  case (added_more f y f')
  then have loop: "add_loop f (hash1 hash_any y) (hash2 y) 0 = Inr f'"
    by (simp add: add_def doubleHash_def)
  note fields = add_loop_fields [OF loop]
  have "bit_is_set (bits f') (probe f' (hash1 hash_any x) (hash2 x) j)" if "j < num_hashes f'" for j
    using add_loop_mono [OF loop, of "probe f (hash1 hash_any x) (hash2 x) j"] that fields
      added_more.IH by (simp add: probe_def)
  with added_more add_consistent show ?case by blast
next
  case (removed f y w f')
  then show ?case by (simp add: remove_def)
next
  case (round_trip f buffer buffer' alloc_ok g g')
  then have c: "consistent f" by simp
  note z = consistent_sized [OF c]
  from round_trip.hyps(3) serialize_sized [OF z round_trip.hyps(2)]
  have "buffer' = le_bytes 8 (expected_count f) @ le_bytes 8 (bit_array_size f) @
          le_bytes 8 (false_positive_rate f) @ le_bytes 4 (ucast (num_hashes f)) @ bits f"
    by simp
  from deserialize_serialized [OF z this, of alloc_ok g] round_trip.hyps(4)
  have "g' = f" by (simp split: if_splits)
  with round_trip.IH show ?case by simp
qed

section \<open>Conversions and the constructor\<close>

lemma d_fraction_less: "d_fraction d < 2 ^ 52"
proof -
  have "unat (take_bit 52 d) = take_bit 52 (unat d)"
    by (simp add: unsigned_take_bit_eq)
  moreover have "take_bit 52 (unat d) < (2::nat) ^ 52"
    by (rule take_bit_nat_less_exp)
  ultimately show ?thesis
    by (simp only: d_fraction_def)
qed

lemma d_significand_less: "d_significand d < 2 ^ 53"
  using d_fraction_less [of d] by (simp add: d_significand_def)

lemma d_significand_normal: "d_exponent d \<noteq> 0 \<Longrightarrow> 2 ^ 52 \<le> d_significand d"
  by (simp add: d_significand_def)

text \<open>A double below \<open>2^64\<close> is at most \<open>2^64 - 2^11\<close>: adding 7 to the converted value cannot wrap.\<close>

lemma d_trunc_bound:
  assumes "d_trunc d < 2 ^ 64"
  shows "d_trunc d \<le> 2 ^ 64 - 2 ^ 11"
proof (cases "1075 \<le> max 1 (d_exponent d)")
  case True
  then have e: "1075 \<le> d_exponent d" by simp
  define k where "k = d_exponent d - 1075"
  from True have t: "d_trunc d = d_significand d * 2 ^ k"
    using e by (simp add: d_trunc_def k_def max_def)
  have "(2::nat) ^ 52 * 2 ^ k \<le> d_significand d * 2 ^ k"
    using d_significand_normal [of d] e by simp
  with assms t have "(2::nat) ^ 52 * 2 ^ k < 2 ^ 64"
    by (rule_tac le_less_trans) simp_all
  then have "(2::nat) ^ (52 + k) < 2 ^ 64"
    by (simp only: power_add)
  then have "52 + k < 64"
    by (simp only: power_strict_increasing_iff [of "2::nat"] one_less_numeral_iff semiring_norm)
  then have "k \<le> 11" by simp
  then have "(2::nat) ^ k \<le> 2 ^ 11"
    by (simp only: power_increasing_iff [of "2::nat"] one_less_numeral_iff semiring_norm)
  moreover have "d_significand d \<le> 2 ^ 53 - 1"
    using d_significand_less [of d] by simp
  ultimately have "d_significand d * 2 ^ k \<le> (2 ^ 53 - 1) * 2 ^ 11"
    by (rule mult_le_mono [rotated])
  with t show ?thesis by simp
next
  case False
  then have "d_trunc d = d_significand d div 2 ^ (1075 - max 1 (d_exponent d))"
    by (simp add: d_trunc_def Let_def)
  also have "\<dots> \<le> d_significand d"
    by (rule div_le_dividend)
  finally show ?thesis
    using d_significand_less [of d] by simp
qed

lemma size_t_of_double_bound:
  assumes "size_t_of_double d = Inr w"
  shows "unat w \<le> 2 ^ 64 - 2 ^ 11"
proof (cases "d_trunc d = 0")
  case True
  with assms show ?thesis
    by (simp add: size_t_of_double_def split: if_splits)
next
  case False
  with assms have lt: "d_trunc d < 2 ^ 64" and w: "w = word_of_nat (d_trunc d)"
    by (auto simp: size_t_of_double_def Let_def split: if_splits)
  from lt have "unat w = d_trunc d"
    by (simp add: w unat_of_nat)
  with d_trunc_bound [OF lt] show ?thesis by simp
qed







lemma ctor_fields:
  assumes "OctoBloomFilter_ctor fp alloc_ok n p = Inr f"
  obtains m0 k0 where "raw_bit_array_size fp n p = Inr m0" and "raw_num_hashes fp m0 n = Inr k0"
    and "bit_array_size f = max m0 64" and "num_hashes f = min (max k0 1) 50"
    and "byte_array_size f = (bit_array_size f + 7) div 8"
    and "bits f = replicate (unat (byte_array_size f)) 0"
    and "expected_count f = n" and "false_positive_rate f = p" and "alloc_ok"
  using assms
  by (auto simp: OctoBloomFilter_ctor_def Let_def split: sum.splits if_splits)

lemma ctor_no_wrap:
  assumes "OctoBloomFilter_ctor fp alloc_ok n p = Inr f"
  shows "64 \<le> unat (bit_array_size f)" and "unat (bit_array_size f) \<le> 2 ^ 64 - 2 ^ 11"
proof -
  from assms obtain m0 where raw: "raw_bit_array_size fp n p = Inr m0"
    and m: "bit_array_size f = max m0 64"
    by (rule ctor_fields)
  from raw have "unat m0 \<le> 2 ^ 64 - 2 ^ 11"
    unfolding raw_bit_array_size_def by (rule size_t_of_double_bound)
  moreover have "unat (max m0 64) = max (unat m0) 64"
    by (simp add: max_def word_le_nat_alt)
  ultimately show "64 \<le> unat (bit_array_size f)" and "unat (bit_array_size f) \<le> 2 ^ 64 - 2 ^ 11"
    by (simp_all add: m)
qed


lemma ctor_bit_array_size: "OctoBloomFilter_ctor fp alloc_ok n p = Inr f \<Longrightarrow> 64 \<le> bit_array_size f"
proof -
  assume "OctoBloomFilter_ctor fp alloc_ok n p = Inr f"
  then obtain m0 where "bit_array_size f = max m0 64"
    by (rule ctor_fields)
  then show ?thesis by simp
qed


lemma replicate_bytes_8: "replicate 8 x = [x, x, x, x, x, x, x, x]"
  by (simp add: numeral_eq_Suc)

lemma sample_ctor_literal:
  "OctoBloomFilter_ctor sample_fp True 4 fp_tenth =
     Inr \<lparr>bits = [0, 0, 0, 0, 0, 0, 0, 0], num_hashes = 3, expected_count = 4,
          false_positive_rate = 0x3FB999999999999A, bit_array_size = 64, byte_array_size = 8\<rparr>"
  by (simp add: OctoBloomFilter_ctor_def raw_bit_array_size_def raw_num_hashes_def
      bit_array_size_expr_def num_hashes_expr_def sample_fp_def fp_tenth_def fp_two_def
      fp_neg_def fp_nan_def size_t_of_double_def uint32_of_double_def d_is_finite_def
      d_trunc_def d_exponent_def d_significand_def d_fraction_def d_sign_def
      replicate_bytes_8)

lemma sample_ctor: "OctoBloomFilter_ctor sample_fp True 4 fp_tenth = Inr sample_filter"
  using sample_ctor_literal by (simp add: sample_filter_def fp_tenth_def)


lemma sample_consistent: "consistent sample_filter"
  by (simp add: consistent_def sample_filter_def)

lemma sample_add_empty:
  "add (\<lambda>_. 0) sample_filter [] = Inr (sample_filter\<lparr>bits := [7, 0, 0, 0, 0, 0, 0, 0]\<rparr>)"
  by (simp add: add_def doubleHash_def hash1_def hash2_def add_loop.simps sample_filter_def)

lemma sample_serialized_size: "getSerializedSize sample_filter = 36"
  by (simp add: getSerializedSize_def sample_filter_def)

lemma sample_serialize:
  "serialize sample_filter (replicate 36 0) =
     Inr [4, 0, 0, 0, 0, 0, 0, 0, 64, 0, 0, 0, 0, 0, 0, 0,
          0x9A, 0x99, 0x99, 0x99, 0x99, 0x99, 0xB9, 0x3F, 3, 0, 0, 0,
          0, 0, 0, 0, 0, 0, 0, 0]"
  by (simp add: serialize_def le_bytes_numeral Let_def sample_filter_def fp_tenth_def)

lemma sample_deserialize:
  "deserialize True sample_filter
     [4, 0, 0, 0, 0, 0, 0, 0, 64, 0, 0, 0, 0, 0, 0, 0,
      0x9A, 0x99, 0x99, 0x99, 0x99, 0x99, 0xB9, 0x3F, 3, 0, 0, 0,
      0, 0, 0, 0, 0, 0, 0, 0] 36 = Inr (True, sample_filter)"
  by (simp add: deserialize_def sample_filter_def fp_tenth_def)

lemma sample_deserialize_other:
  "deserialize True sample_filter
     [1, 0, 0, 0, 0, 0, 0, 0,  8, 0, 0, 0, 0, 0, 0, 0,  0, 0, 0, 0, 0, 0, 0xE0, 0x3F,
      1, 0, 0, 0,  0xFF] 29 =
     Inr (True, \<lparr>bits = [0xFF], num_hashes = 1, expected_count = 1,
          false_positive_rate = 0x3FE0000000000000, bit_array_size = 8, byte_array_size = 1\<rparr>)"
  by (simp add: deserialize_def sample_filter_def)

section \<open>The registry\<close>

lemma registry_entry_put [simp]:
  "shmem s \<noteq> None \<Longrightarrow> registry_entry (put_entry s key e) = (registry_entry s)(key \<mapsto> e)"
  by (auto simp: registry_entry_def put_entry_def update_conv')

lemma registry_keys_put [simp]:
  "registry_entry s key \<noteq> None \<Longrightarrow> registry_keys (put_entry s key e) = registry_keys s"
  by (auto simp: registry_entry_def registry_keys_def put_entry_def update_keys
      split: option.splits dest: map_of_SomeD intro: rev_image_eqI)

lemma put_entry_fields [simp]:
  "heap (put_entry s key e) = heap s"
  "next_addr (put_entry s key e) = next_addr s"
  "bloom_shared_state (put_entry s key e) = bloom_shared_state s"
  "shmem (put_entry s key e) = None \<longleftrightarrow> shmem s = None"
  by (simp_all add: put_entry_def)

lemma registry_heap_update [simp]:
  "registry_entry (s\<lparr>heap := h\<rparr>) = registry_entry s"
  "registry_keys (s\<lparr>heap := h\<rparr>) = registry_keys s"
  "registry_entry (s\<lparr>next_addr := k\<rparr>) = registry_entry s"
  "registry_keys (s\<lparr>next_addr := k\<rparr>) = registry_keys s"
  "registry_entry (s\<lparr>bloom_shared_state := b\<rparr>) = registry_entry s"
  "registry_keys (s\<lparr>bloom_shared_state := b\<rparr>) = registry_keys s"
  by (simp_all add: registry_entry_def registry_keys_def fun_eq_iff)

lemma get_bloom_filter_eq:
  "get_bloom_filter s oid att =
     (if \<not> bloom_shared_state s then Null
      else case registry_entry s (oid, att) of
        None \<Rightarrow> Null
      | Some entry \<Rightarrow> if is_valid entry then entry_filter entry else Null)"
  by (simp add: get_bloom_filter_def registry_entry_def split: option.splits)

lemma registry_entry_shmem: "registry_entry s key = Some e \<Longrightarrow> shmem s \<noteq> None"
  by (auto simp: registry_entry_def split: option.splits)

lemma register_existing_attached:
  assumes "registry_entry s (oid, att) = Some entry" and "bloom_shared_state s"
  shows "register_bloom_filter fp env s oid att n p = register_found fp env s (oid, att) entry n p"
proof -
  from assms obtain st where st: "shmem s = Some st" "map_of (bloom_registry st) (oid, att) = Some entry"
    by (auto simp: registry_entry_def split: option.splits)
  with assms(2) show ?thesis
    by (simp add: register_bloom_filter_def)
qed

lemma attach_existing:
  assumes "registry_entry s key = Some entry"
  shows "(if bloom_shared_state s then (Inr (), s) else init_shared_memory env s) =
     (if bloom_shared_state s \<or> shmem_ok env then (Inr (), s\<lparr>bloom_shared_state := True\<rparr>)
      else (Inl AllocationFailure, s))"
  using registry_entry_shmem [OF assms]
  by (auto simp: init_shared_memory_def split: option.splits)

lemma register_existing_unfold:
  assumes "registry_entry s (oid, att) = Some entry"
  shows "register_bloom_filter fp env s oid att n p =
     (if bloom_shared_state s \<or> shmem_ok env
      then register_found fp env (s\<lparr>bloom_shared_state := True\<rparr>) (oid, att) entry n p
      else (Inl AllocationFailure, s))"
proof -
  from assms obtain st where st: "shmem s = Some st" "map_of (bloom_registry st) (oid, att) = Some entry"
    by (auto simp: registry_entry_def split: option.splits)
  show ?thesis
    unfolding register_bloom_filter_def attach_existing [OF assms]
    by (simp add: st)
qed

lemma register_replaces_existing:
  assumes found: "registry_entry s (oid, att) = Some entry"
    and ok: "register_bloom_filter fp env s oid att n p = (Inr True, s')"
    and old: "entry_filter entry = Addr a" "heap s a = Some obj"
  shows "\<exists>f. OctoBloomFilter_ctor fp (bits_alloc_ok env) n p = Inr f \<and>
     registry_keys s' = registry_keys s \<and>
     registry_entry s' =
       (registry_entry s)((oid, att) \<mapsto>
          entry\<lparr>entry_filter := Addr (next_addr s), entry_expected_count := n,
                entry_false_positive_rate := p, current_count := 0, is_valid := True\<rparr>) \<and>
     heap s' = (heap s)(a := None, next_addr s \<mapsto> Constructed f) \<and>
     bloom_shared_state s'"
proof -
  let ?s0 = "s\<lparr>bloom_shared_state := True\<rparr>"
  let ?s1 = "?s0\<lparr>heap := (heap s)(a := None)\<rparr>"
  from found have sh: "shmem s \<noteq> None" by (rule registry_entry_shmem)
  from ok have found_ok: "register_found fp env ?s0 (oid, att) entry n p = (Inr True, s')"
    by (simp add: register_existing_unfold [OF found] split: if_splits)
  have d: "destroy_filter ?s0 (entry_filter entry) = Inr ?s1"
    using old by (simp add: destroy_filter_def)
  from found_ok d obtain entry1 s2 where
    nf: "new_filter fp env ?s1 (oid, att) entry n p = (Inr entry1, s2)"
    and s': "s' = put_entry s2 (oid, att)
       (entry1\<lparr>entry_expected_count := n, entry_false_positive_rate := p,
                current_count := 0, is_valid := True\<rparr>)"
    by (auto simp: register_found_def split: prod.splits sum.splits)
  from nf obtain f where ctor: "OctoBloomFilter_ctor fp (bits_alloc_ok env) n p = Inr f"
    and e1: "entry1 = entry\<lparr>entry_filter := Addr (next_addr s)\<rparr>"
    and s2: "s2 = (put_entry (?s1\<lparr>heap := (heap ?s1)(next_addr s \<mapsto> Unconstructed),
                     next_addr := next_addr s + 1\<rparr>) (oid, att) entry1)
                  \<lparr>heap := (heap s)(a := None, next_addr s \<mapsto> Constructed f)\<rparr>"
    by (auto simp: new_filter_def Let_def split: if_splits sum.splits)
  have "registry_keys s' = registry_keys s"
    using found sh by (simp add: s' s2)
  moreover have "registry_entry s' =
       (registry_entry s)((oid, att) \<mapsto>
          entry\<lparr>entry_filter := Addr (next_addr s), entry_expected_count := n,
                entry_false_positive_rate := p, current_count := 0, is_valid := True\<rparr>)"
    using sh by (simp add: s' s2 e1)
  moreover have "heap s' = (heap s)(a := None, next_addr s \<mapsto> Constructed f)"
    by (simp add: s' s2)
  moreover have "bloom_shared_state s'"
    by (simp add: s' s2)
  ultimately show ?thesis
    using ctor by blast
qed

lemma register_existing_succeeds:
  assumes found: "registry_entry s (oid, att) = Some entry"
    and old: "entry_filter entry = Addr a" "heap s a = Some obj"
    and attach: "bloom_shared_state s \<or> shmem_ok env"
    and alloc: "object_alloc_ok env"
    and ctor: "OctoBloomFilter_ctor fp (bits_alloc_ok env) n p = Inr f"
  shows "\<exists>s'. register_bloom_filter fp env s oid att n p = (Inr True, s')"
  using attach old alloc ctor
  by (simp add: register_existing_unfold [OF found] register_found_def destroy_filter_def
      new_filter_def Let_def)

text \<open>No operation leaves two entries under one key.\<close>

lemma put_entry_keys_distinct:
  "distinct (registry_keys s) \<Longrightarrow> distinct (registry_keys (put_entry s key e))"
  by (auto simp: registry_keys_def put_entry_def distinct_update split: option.splits)

lemma init_shared_memory_keys:
  "init_shared_memory env s = (r, s') \<Longrightarrow> registry_keys s' = registry_keys s"
  by (auto simp: init_shared_memory_def registry_keys_def split: if_splits option.splits)

lemma destroy_filter_keys:
  "destroy_filter s q = Inr s' \<Longrightarrow> registry_keys s' = registry_keys s"
  by (auto simp: destroy_filter_def split: pointer.splits option.splits)

lemma new_filter_keys_distinct:
  assumes "new_filter fp env s key entry n p = (r, s')" and "distinct (registry_keys s)"
  shows "distinct (registry_keys s')"
proof (cases "object_alloc_ok env")
  case False
  with assms show ?thesis by (simp add: new_filter_def)
next
  case True
  let ?s1 = "put_entry (s\<lparr>heap := (heap s)(next_addr s \<mapsto> Unconstructed),
      next_addr := next_addr s + 1\<rparr>) key (entry\<lparr>entry_filter := Addr (next_addr s)\<rparr>)"
  have "distinct (registry_keys ?s1)"
    using assms(2) by (intro put_entry_keys_distinct) simp
  moreover from assms(1) True have "registry_keys s' = registry_keys ?s1"
    by (auto simp: new_filter_def Let_def split: sum.splits)
  ultimately show ?thesis by simp
qed

lemma register_found_keys_distinct:
  assumes "register_found fp env s key entry n p = (r, s')" and "distinct (registry_keys s)"
  shows "distinct (registry_keys s')"
proof (cases "destroy_filter s (entry_filter entry)")
  case (Inl e)
  with assms show ?thesis by (simp add: register_found_def)
next
  case (Inr s1)
  obtain r2 s2 where nf: "new_filter fp env s1 key entry n p = (r2, s2)"
    by (cases "new_filter fp env s1 key entry n p")
  from destroy_filter_keys [OF Inr] assms(2) have "distinct (registry_keys s1)" by simp
  with nf have d2: "distinct (registry_keys s2)" by (rule new_filter_keys_distinct)
  show ?thesis
  proof (cases r2)
    case (Inl e)
    with assms(1) Inr nf d2 show ?thesis by (simp add: register_found_def)
  next
    case (Inr entry1)
    with assms(1) \<open>destroy_filter s (entry_filter entry) = Inr s1\<close> nf
    have "s' = put_entry s2 key (entry1\<lparr>entry_expected_count := n,
        entry_false_positive_rate := p, current_count := 0, is_valid := True\<rparr>)"
      by (simp add: register_found_def)
    with d2 show ?thesis by (simp add: put_entry_keys_distinct)
  qed
qed

lemma register_new_keys_distinct:
  assumes "register_new fp env s key n p = (r, s')" and "distinct (registry_keys s)"
  shows "distinct (registry_keys s')"
proof (cases "enter_ok env")
  case False
  with assms show ?thesis by (simp add: register_new_def)
next
  case True
  let ?entry = "\<lparr>table_oid = fst key, attnum = snd key, entry_filter = Indeterminate,
      entry_expected_count = n, entry_false_positive_rate = p, current_count = 0,
      is_valid = True\<rparr>"
  obtain r2 s2 where nf: "new_filter fp env (put_entry s key ?entry) key ?entry n p = (r2, s2)"
    by (cases "new_filter fp env (put_entry s key ?entry) key ?entry n p")
  from assms(2) have "distinct (registry_keys (put_entry s key ?entry))"
    by (rule put_entry_keys_distinct)
  with nf have "distinct (registry_keys s2)" by (rule new_filter_keys_distinct)
  moreover from assms(1) True nf have "s' = s2"
    by (cases r2) (simp_all add: register_new_def Let_def)
  ultimately show ?thesis by simp
qed

lemma register_keys_distinct:
  assumes "register_bloom_filter fp env s oid att n p = (r, s')" and "distinct (registry_keys s)"
  shows "distinct (registry_keys s')"
proof -
  obtain r0 s0 where a: "(if bloom_shared_state s then (Inr (), s) else init_shared_memory env s) = (r0, s0)"
    by (cases "if bloom_shared_state s then (Inr (), s) else init_shared_memory env s")
  then have k0: "registry_keys s0 = registry_keys s"
    by (auto simp: init_shared_memory_keys split: if_splits)
  with assms(2) have d0: "distinct (registry_keys s0)" by simp
  show ?thesis
  proof (cases r0)
    case (Inl e)
    with assms(1) a d0 show ?thesis by (simp add: register_bloom_filter_def)
  next
    case (Inr u)
    show ?thesis
    proof (cases "bloom_shared_state s0")
      case False
      with assms(1) a Inr d0 show ?thesis by (simp add: register_bloom_filter_def)
    next
      case True
      show ?thesis
      proof (cases "shmem s0")
        case None
        with assms(1) a Inr True d0 show ?thesis by (simp add: register_bloom_filter_def)
      next
        case (Some st)
        show ?thesis
        proof (cases "map_of (bloom_registry st) (oid, att)")
          case None
          with assms(1) a Inr True Some
          have "register_new fp env s0 (oid, att) n p = (r, s')"
            by (simp add: register_bloom_filter_def)
          then show ?thesis using d0 by (rule register_new_keys_distinct)
        next
          case (Some entry)
          with assms(1) a Inr True \<open>shmem s0 = Some st\<close>
          have "register_found fp env s0 (oid, att) entry n p = (r, s')"
            by (simp add: register_bloom_filter_def)
          then show ?thesis using d0 by (rule register_found_keys_distinct)
        qed
      qed
    qed
  qed
qed

lemma unregister_keys_distinct:
  assumes "unregister_bloom_filter s oid att = Inr s'" and "distinct (registry_keys s)"
  shows "distinct (registry_keys s')"
proof -
  have "distinct (registry_keys (s\<lparr>shmem := Some (st\<lparr>bloom_registry :=
      AList.delete (oid, att) (bloom_registry st)\<rparr>)\<rparr>))" if "shmem s = Some st" for st
    using assms(2) that by (simp add: registry_keys_def distinct_delete)
  with assms show ?thesis
    by (auto simp: unregister_bloom_filter_def destroy_filter_keys
        split: if_splits option.splits)
qed

lemma sample_registered: "registry_entry sample_state (16384, 1) = Some sample_entry"
  by (simp add: registry_entry_def sample_state_def)

lemma sample_attached: "bloom_shared_state sample_state"
  by (simp add: sample_state_def)

lemma sample_heap: "heap sample_state 0 = Some (Constructed sample_filter)"
  by (simp add: sample_state_def)

lemma sample_entry_filter: "entry_filter sample_entry = Addr 0"
  by (simp add: sample_entry_def)

lemma first_registration:
  "register_bloom_filter sample_fp sample_env
     \<lparr>shmem = None, bloom_shared_state = False, heap = Map.empty, next_addr = 0\<rparr>
     16384 1 4 fp_tenth = (Inr True, sample_state)"
  by (simp add: register_bloom_filter_def init_shared_memory_def register_new_def new_filter_def
      put_entry_def sample_env_def sample_ctor sample_state_def sample_entry_def Let_def)

lemma second_registration_literal:
  "register_bloom_filter sample_fp sample_env sample_state 16384 1 4 fp_tenth =
     (Inr True,
      sample_state\<lparr>shmem := Some \<lparr>bloom_registry = [((16384, 1), sample_entry\<lparr>entry_filter := Addr 1\<rparr>)],
                     total_memory = 0x100000, used_memory = 0, max_filters = 10\<rparr>,
        heap := [1 \<mapsto> Constructed sample_filter],
        next_addr := 2\<rparr>)"
  unfolding register_existing_attached [OF sample_registered sample_attached]
  by (simp add: register_found_def destroy_filter_def new_filter_def put_entry_def
      sample_env_def sample_ctor sample_state_def sample_entry_def Let_def fun_eq_iff)

lemma second_registration: 
  "register_bloom_filter sample_fp sample_env sample_state 16384 1 4 fp_tenth =
     (Inr True, replaced_state)"
  using second_registration_literal by (simp add: replaced_state_def)

lemma failed_registration:
  "register_bloom_filter sample_fp (sample_env\<lparr>object_alloc_ok := False\<rparr>) sample_state
     16384 1 4 fp_tenth =
     (Inl AllocationFailure, sample_state\<lparr>heap := Map.empty\<rparr>)"
  unfolding register_existing_attached [OF sample_registered sample_attached]
  by (simp add: register_found_def destroy_filter_def new_filter_def sample_env_def
      sample_state_def sample_entry_def fun_eq_iff)

lemma failed_state_lookup:
  "get_bloom_filter (sample_state\<lparr>heap := Map.empty\<rparr>) 16384 1 = Addr 0"
  "heap (sample_state\<lparr>heap := Map.empty\<rparr>) 0 = None"
  by (simp_all add: get_bloom_filter_def sample_state_def sample_entry_def)

lemma failed_state_query:
  "octo_bloom_might_contain (\<lambda>_. 0) (sample_state\<lparr>heap := Map.empty\<rparr>) 16384 1 (Some [0x61]) =
     Inl InvalidPointer"
  by (simp add: octo_bloom_might_contain_def failed_state_lookup InvalidAttrNumber_def)

section \<open>Bounds on the logarithms of the sample\<close>





















section \<open>The claims\<close>

text \<open>
  Claim C1 (no false negatives). Once a byte sequence \<open>x\<close>, the empty one included, has
  been added to a filter, \<open>mightContain\<close> returns true for \<open>x\<close> in every state that
  follows: right after the \<open>add\<close>, after any number of further calls of \<open>add\<close> with any
  values, and in the object \<open>deserialize\<close> fills from the buffer \<open>serialize\<close> wrote. The
  filter \<open>x\<close> is added to is in the state the constructor establishes
  (\<open>ctor_consistent\<close>), in which \<open>add\<close> always returns (\<open>add_total\<close>).
\<close>

theorem no_false_negatives:
  "after_add hash_any x f \<Longrightarrow> mightContain hash_any f x = Inr True"
proof -
  assume "after_add hash_any x f"
  from after_add_invariant [OF this]
  have c: "consistent f"
    and s: "\<And>j. j < num_hashes f \<Longrightarrow> bit_is_set (bits f) (probe f (hash1 hash_any x) (hash2 x) j)"
    by simp_all
  from c have "bit_array_size f \<noteq> 0" by (simp add: consistent_def)
  then have "mightContain_loop f (hash1 hash_any x) (hash2 x) 0 = Inr True"
    using s by (rule mightContain_loop_true) simp
  then show ?thesis by (simp add: mightContain_def doubleHash_def)
qed

theorem no_false_negatives_witness:
  "OctoBloomFilter_ctor sample_fp True 4 fp_tenth = Inr sample_filter \<and>
   after_add (\<lambda>_. 0) [] (sample_filter\<lparr>bits := [71, 0, 0, 0, 16, 0, 32, 0]\<rparr>) \<and>
   mightContain (\<lambda>_. 0) (sample_filter\<lparr>bits := [71, 0, 0, 0, 16, 0, 32, 0]\<rparr>) [] = Inr True"
proof -
  let ?h = "\<lambda>_ :: byte list. 0 :: 64 word"
  let ?f1 = "sample_filter\<lparr>bits := [7, 0, 0, 0, 0, 0, 0, 0]\<rparr>"
  let ?f2 = "sample_filter\<lparr>bits := [71, 0, 0, 0, 16, 0, 32, 0]\<rparr>"
  let ?buffer = "[4, 0, 0, 0, 0, 0, 0, 0, 64, 0, 0, 0, 0, 0, 0, 0,
      0x9A, 0x99, 0x99, 0x99, 0x99, 0x99, 0xB9, 0x3F, 3, 0, 0, 0,
      71, 0, 0, 0, 16, 0, 32, 0] :: byte list"
  have a2: "add ?h ?f1 [0x61] = Inr ?f2"
    by (simp add: add_def doubleHash_def hash1_def hash2_def simple_hash_def add_loop.simps
        sample_filter_def)
  have r3: "remove ?f2 [0x61] = (remove_warning, ?f2)"
    by (simp add: remove_def)
  have l4: "length (replicate 36 (0 :: byte)) = unat (getSerializedSize ?f2)"
    by (simp add: getSerializedSize_def sample_filter_def)
  have s4: "serialize ?f2 (replicate 36 0) = Inr ?buffer"
    by (simp add: serialize_def le_bytes_numeral Let_def sample_filter_def fp_tenth_def)
  have d5: "deserialize True sample_filter ?buffer (getSerializedSize ?f2) = Inr (True, ?f2)"
    by (simp add: deserialize_def getSerializedSize_def sample_filter_def fp_tenth_def)
  have reach: "after_add ?h [] ?f2"
    by (rule after_add.round_trip [OF after_add.removed [OF after_add.added_more
          [OF after_add.added [OF sample_consistent sample_add_empty] a2] r3] l4 s4 d5])
  from sample_ctor reach no_false_negatives [OF reach] show ?thesis
    by blast
qed



text \<open>
  Claim C3 (fail open). For a key whose column exists, \<open>octo_bloom_might_contain\<close>
  returns true when the backend has no registry or the registry has no entry for the key,
  and when the entry is marked invalid; for a valid entry with a constructed filter it
  returns true when the filter's bit-array size is zero, and otherwise the filter's
  \<open>mightContain\<close> answer for the value (true when the value pointer is null).
\<close>

theorem might_contain_fail_open:
  assumes "att \<noteq> InvalidAttrNumber"
  shows
    "(\<not> bloom_shared_state s \<or> registry_entry s (oid, att) = None \<longrightarrow>
        octo_bloom_might_contain hash_any s oid att v = Inr True) \<and>
     (bloom_shared_state s \<and> registry_entry s (oid, att) = Some entry \<and> \<not> is_valid entry \<longrightarrow>
        octo_bloom_might_contain hash_any s oid att v = Inr True) \<and>
     (bloom_shared_state s \<and> registry_entry s (oid, att) = Some entry \<and> is_valid entry \<and>
      entry_filter entry = Null \<longrightarrow>
        octo_bloom_might_contain hash_any s oid att v = Inr True) \<and>
     (bloom_shared_state s \<and> registry_entry s (oid, att) = Some entry \<and> is_valid entry \<and>
      entry_filter entry = Addr a \<and> heap s a = Some (Constructed f) \<longrightarrow>
        octo_bloom_might_contain hash_any s oid att v =
          (if bit_array_size f = 0 then Inr True
           else case v of None \<Rightarrow> Inr True | Some x \<Rightarrow> mightContain hash_any f x))"
  using assms
  by (auto simp: octo_bloom_might_contain_def get_bloom_filter_eq)

theorem might_contain_fail_open_witness:
  "(1 :: 16 word) \<noteq> InvalidAttrNumber \<and>
   bloom_shared_state sample_state \<and>
   registry_entry sample_state (16384, 1) = Some sample_entry \<and>
   is_valid sample_entry \<and> entry_filter sample_entry = Addr 0 \<and>
   heap sample_state 0 = Some (Constructed sample_filter) \<and>
   registry_entry sample_state (16384, 2) = None \<and>
   octo_bloom_might_contain (\<lambda>_. 0) sample_state 16384 2 (Some [0x61]) = Inr True \<and>
   octo_bloom_might_contain (\<lambda>_. 0) sample_state 16384 1 (Some [0x61]) =
     (if bit_array_size sample_filter = 0 then Inr True
      else case Some [0x61] of None \<Rightarrow> Inr True
           | Some x \<Rightarrow> mightContain (\<lambda>_. 0) sample_filter x)"
proof -
  have a: "(1 :: 16 word) \<noteq> InvalidAttrNumber" "(2 :: 16 word) \<noteq> InvalidAttrNumber"
    by (simp_all add: InvalidAttrNumber_def)
  have v: "is_valid sample_entry" "entry_filter sample_entry = Addr 0"
    by (simp_all add: sample_entry_def)
  have h: "heap sample_state 0 = Some (Constructed sample_filter)"
    by (simp add: sample_state_def)
  have n: "registry_entry sample_state (16384, 2) = None"
    by (simp add: registry_entry_def sample_state_def)
  from a(1) sample_attached sample_registered v h n
    might_contain_fail_open [OF a(2), of sample_state 16384 "\<lambda>_. 0" "Some [0x61]"]
    might_contain_fail_open [OF a(1), of sample_state 16384 "\<lambda>_. 0" "Some [0x61]"
      sample_entry 0 sample_filter]
  show ?thesis by blast
qed

text \<open>
  Claim C4 (parameter bounds). Whatever the expected count and the false-positive rate,
  and whatever the floating-point operations return, a filter the constructor returns has
  \<open>1 \<le> num_hashes_ \<le> 50\<close>, \<open>bit_array_size_ \<ge> 64\<close>, and a buffer of
  \<open>ceil(bit_array_size_ / 8)\<close> bytes that are all zero. The constructor does not return
  when a conversion from \<open>double\<close> is undefined or \<open>palloc\<close> fails.
\<close>

theorem constructor_parameter_bounds:
  assumes "OctoBloomFilter_ctor fp alloc_ok n p = Inr f"
  shows "1 \<le> num_hashes f \<and> num_hashes f \<le> 50 \<and> 64 \<le> bit_array_size f \<and>
    bits f = replicate ((unat (bit_array_size f) + 7) div 8) 0"
proof -
  from assms obtain m0 k0 where m: "bit_array_size f = max m0 64"
    and k: "num_hashes f = min (max k0 1) 50"
    and nb: "byte_array_size f = (bit_array_size f + 7) div 8"
    and bs: "bits f = replicate (unat (byte_array_size f)) 0"
    by (rule ctor_fields)
  have "unat (bit_array_size f) + 7 < 2 ^ 64"
    using ctor_no_wrap(2) [OF assms] by simp
  then have "unat (byte_array_size f) = (unat (bit_array_size f) + 7) div 8"
    by (simp add: nb unat_bytes_for_bits)
  with bs have "bits f = replicate ((unat (bit_array_size f) + 7) div 8) 0"
    by simp
  moreover have "1 \<le> min (max k0 1) (50 :: 32 word)" and "min (max k0 1) (50 :: 32 word) \<le> 50"
    by simp_all
  moreover have "64 \<le> max m0 (64 :: 64 word)"
    by simp
  ultimately show ?thesis
    by (simp only: m k simp_thms)
qed

theorem constructor_parameter_bounds_witness:
  "OctoBloomFilter_ctor sample_fp True 4 fp_tenth = Inr sample_filter \<and>
   1 \<le> num_hashes sample_filter \<and> num_hashes sample_filter \<le> 50 \<and>
   64 \<le> bit_array_size sample_filter \<and>
   bits sample_filter = replicate ((unat (bit_array_size sample_filter) + 7) div 8) 0"
  using sample_ctor constructor_parameter_bounds [OF sample_ctor]
  by blast

text \<open>
  Claim C5, as stated, fails: \<open>deserialize\<close> assigns \<open>bit_array_size_\<close> from the buffer.
  On the sample filter (64 bits) a 29-byte buffer that declares 8 bits is accepted and
  leaves \<open>bit_array_size_ = 8\<close>.
\<close>

theorem deserialize_overwrites_bit_array_size:
  "OctoBloomFilter_ctor sample_fp True 4 fp_tenth = Inr sample_filter \<and>
   bit_array_size sample_filter = 64 \<and>
   deserialize True sample_filter
     [1, 0, 0, 0, 0, 0, 0, 0,  8, 0, 0, 0, 0, 0, 0, 0,  0, 0, 0, 0, 0, 0, 0xE0, 0x3F,
      1, 0, 0, 0,  0xFF] 29 =
     Inr (True, \<lparr>bits = [0xFF], num_hashes = 1, expected_count = 1,
          false_positive_rate = 0x3FE0000000000000, bit_array_size = 8, byte_array_size = 1\<rparr>)"
  using sample_ctor sample_deserialize_other by (simp add: sample_filter_def)

text \<open>
  Claim C5, amended. \<open>bit_array_size_\<close> is at least 64 when the constructor returns;
  \<open>add\<close>, \<open>remove\<close> and \<open>clear\<close> leave it as it is (\<open>mightContain\<close> and \<open>serialize\<close>
  are \<open>const\<close> and return no filter); a \<open>deserialize\<close> that returns true has set it to
  the eight bytes at offset 8 of the buffer, so it keeps its value through a round trip of
  the filter's own serialization and takes any value, also one below 64, from another
  buffer.
\<close>

theorem bit_array_size_changes:
  "(OctoBloomFilter_ctor fp alloc_ok n p = Inr f0 \<longrightarrow> 64 \<le> bit_array_size f0) \<and>
   (add hash_any f1 x1 = Inr f1' \<longrightarrow> bit_array_size f1' = bit_array_size f1) \<and>
   (remove f2 x2 = (w, f2') \<longrightarrow> bit_array_size f2' = bit_array_size f2) \<and>
   (clear f3 = Inr f3' \<longrightarrow> bit_array_size f3' = bit_array_size f3) \<and>
   (deserialize ok4 f4 buffer4 sz = Inr (True, f4') \<longrightarrow>
      bit_array_size f4' = le_word (take 8 (drop 8 buffer4))) \<and>
   (sized f5 \<and> length buffer5 = unat (getSerializedSize f5) \<and>
    serialize f5 buffer5 = Inr buffer5' \<and>
    deserialize ok5 g5 buffer5' (getSerializedSize f5) = Inr (b5, g5') \<longrightarrow>
      bit_array_size g5' = bit_array_size f5)"
  apply (intro conjI impI)
       apply (erule ctor_bit_array_size)
      apply (erule add_bit_array_size)
     apply (drule remove_unchanged, simp)
    apply (erule clear_bit_array_size)
   apply (erule deserialize_success_bit_array_size)
  apply (elim conjE, erule (3) round_trip_bit_array_size)
  done

theorem bit_array_size_changes_witness:
  "OctoBloomFilter_ctor sample_fp True 4 fp_tenth = Inr sample_filter \<and>
   64 \<le> bit_array_size sample_filter \<and>
   add (\<lambda>_. 0) sample_filter [] = Inr (sample_filter\<lparr>bits := [7, 0, 0, 0, 0, 0, 0, 0]\<rparr>) \<and>
   bit_array_size (sample_filter\<lparr>bits := [7, 0, 0, 0, 0, 0, 0, 0]\<rparr>) = bit_array_size sample_filter \<and>
   remove sample_filter [0x61] = (remove_warning, sample_filter) \<and>
   clear sample_filter = Inr sample_filter \<and>
   deserialize True sample_filter
     [1, 0, 0, 0, 0, 0, 0, 0,  8, 0, 0, 0, 0, 0, 0, 0,  0, 0, 0, 0, 0, 0, 0xE0, 0x3F,
      1, 0, 0, 0,  0xFF] 29 =
     Inr (True, \<lparr>bits = [0xFF], num_hashes = 1, expected_count = 1,
          false_positive_rate = 0x3FE0000000000000, bit_array_size = 8, byte_array_size = 1\<rparr>) \<and>
   bit_array_size \<lparr>bits = [0xFF], num_hashes = 1, expected_count = 1,
          false_positive_rate = 0x3FE0000000000000, bit_array_size = 8, byte_array_size = 1\<rparr> =
     le_word (take 8 (drop 8
       [1, 0, 0, 0, 0, 0, 0, 0,  8, 0, 0, 0, 0, 0, 0, 0,  0, 0, 0, 0, 0, 0, 0xE0, 0x3F,
        1, 0, 0, 0,  0xFF])) \<and>
   sized sample_filter \<and>
   length (replicate 36 (0 :: byte)) = unat (getSerializedSize sample_filter) \<and>
   serialize sample_filter (replicate 36 0) =
     Inr [4, 0, 0, 0, 0, 0, 0, 0, 64, 0, 0, 0, 0, 0, 0, 0,
          0x9A, 0x99, 0x99, 0x99, 0x99, 0x99, 0xB9, 0x3F, 3, 0, 0, 0,
          0, 0, 0, 0, 0, 0, 0, 0] \<and>
   deserialize True sample_filter
     [4, 0, 0, 0, 0, 0, 0, 0, 64, 0, 0, 0, 0, 0, 0, 0,
      0x9A, 0x99, 0x99, 0x99, 0x99, 0x99, 0xB9, 0x3F, 3, 0, 0, 0,
      0, 0, 0, 0, 0, 0, 0, 0] (getSerializedSize sample_filter) = Inr (True, sample_filter)"
proof -
  let ?other = "[1, 0, 0, 0, 0, 0, 0, 0,  8, 0, 0, 0, 0, 0, 0, 0,  0, 0, 0, 0, 0, 0, 0xE0, 0x3F,
      1, 0, 0, 0,  0xFF] :: byte list"
  let ?own = "[4, 0, 0, 0, 0, 0, 0, 0, 64, 0, 0, 0, 0, 0, 0, 0,
      0x9A, 0x99, 0x99, 0x99, 0x99, 0x99, 0xB9, 0x3F, 3, 0, 0, 0,
      0, 0, 0, 0, 0, 0, 0, 0] :: byte list"
  let ?f8 = "\<lparr>bits = [0xFF], num_hashes = 1, expected_count = 1,
          false_positive_rate = 0x3FE0000000000000, bit_array_size = 8, byte_array_size = 1\<rparr>"
  have r: "remove sample_filter [0x61] = (remove_warning, sample_filter)"
    by (simp add: remove_def)
  have c: "clear sample_filter = Inr sample_filter"
    by (simp add: clear_def sample_filter_def replicate_bytes_8)
  have l: "length (replicate 36 (0 :: byte)) = unat (getSerializedSize sample_filter)"
    by (simp add: sample_serialized_size)
  have d: "deserialize True sample_filter ?own (getSerializedSize sample_filter) =
      Inr (True, sample_filter)"
    by (simp only: sample_serialized_size sample_deserialize)
  from sample_ctor sample_add_empty r c sample_deserialize_other
    consistent_sized [OF sample_consistent] l
    sample_serialize d
    bit_array_size_changes [of sample_fp True 4 fp_tenth sample_filter
      "\<lambda>_. 0" sample_filter "[]" "sample_filter\<lparr>bits := [7, 0, 0, 0, 0, 0, 0, 0]\<rparr>"
      sample_filter "[0x61]" remove_warning sample_filter
      sample_filter sample_filter
      True sample_filter ?other 29 ?f8
      sample_filter "replicate 36 0" ?own True sample_filter True sample_filter]
  show ?thesis by blast
qed

text \<open>
  Claim C6. \<open>deserialize\<close> compares \<open>size\<close> with
  \<open>28 + (bit_array_size_ + 7) / 8\<close> computed in 64-bit arithmetic. For a declared size
  above \<open>2^64 - 8\<close> the sum wraps: a 28-byte buffer whose header declares
  \<open>2^64 - 1\<close> bits is accepted, although 28 is smaller than 28 plus the \<open>2^61\<close> bytes such
  a bit array needs, and \<open>mightContain\<close> on the resulting filter reads outside its empty
  buffer. For declared sizes without wrap-around the claim holds
  (\<open>deserialize_rejects_short_header\<close>, \<open>deserialize_rejects_short_body\<close>,
  \<open>deserialize_accepts\<close>).
\<close>

theorem deserialize_size_check_wraps:
  "deserialize True sample_filter
     [1, 0, 0, 0, 0, 0, 0, 0,  0xFF, 0xFF, 0xFF, 0xFF, 0xFF, 0xFF, 0xFF, 0xFF,
      0, 0, 0, 0, 0, 0, 0xE0, 0x3F,  1, 0, 0, 0] 28 =
     Inr (True, \<lparr>bits = [], num_hashes = 1, expected_count = 1,
          false_positive_rate = 0x3FE0000000000000, bit_array_size = 0xFFFFFFFFFFFFFFFF,
          byte_array_size = 0\<rparr>) \<and>
   (28 :: nat) < 28 + (unat (0xFFFFFFFFFFFFFFFF :: 64 word) + 7) div 8 \<and>
   mightContain (\<lambda>_. 0)
     \<lparr>bits = [], num_hashes = 1, expected_count = 1,
      false_positive_rate = 0x3FE0000000000000, bit_array_size = 0xFFFFFFFFFFFFFFFF,
      byte_array_size = 0\<rparr> [] = Inl OutOfBounds"
  by (simp add: deserialize_def sample_filter_def mightContain_def doubleHash_def hash1_def
      hash2_def mightContain_loop.simps)

text \<open>
  Claim C7, as stated, fails: \<open>register_bloom_filter\<close> destroys and frees the old filter
  before it allocates the new one. When the \<open>palloc\<close> of the new object fails on the sample
  registry, the error leaves the entry valid and pointing at the freed filter; the next
  lookup returns that pointer and the membership call uses it.
\<close>

theorem failed_registration_loses_filter:
  "registry_entry sample_state (16384, 1) = Some sample_entry \<and>
   entry_filter sample_entry = Addr 0 \<and>
   heap sample_state 0 = Some (Constructed sample_filter) \<and>
   register_bloom_filter sample_fp (sample_env\<lparr>object_alloc_ok := False\<rparr>) sample_state
     16384 1 4 fp_tenth = (Inl AllocationFailure, sample_state\<lparr>heap := Map.empty\<rparr>) \<and>
   get_bloom_filter (sample_state\<lparr>heap := Map.empty\<rparr>) 16384 1 = Addr 0 \<and>
   heap (sample_state\<lparr>heap := Map.empty\<rparr>) 0 = None \<and>
   octo_bloom_might_contain (\<lambda>_. 0) (sample_state\<lparr>heap := Map.empty\<rparr>) 16384 1 (Some [0x61]) =
     Inl InvalidPointer"
  using sample_registered sample_entry_filter sample_heap failed_registration
    failed_state_lookup failed_state_query
  by simp

text \<open>
  Claim C7, amended. If the allocation of the filter object or of its bit buffer fails
  during a register call for a key that already has an entry with a filter, the call
  raises the allocation error, no entry is added or removed, and the entry keeps its
  expected count, false-positive rate, observed count and valid flag; its old filter has
  been destroyed, and neither the old address nor the entry's filter pointer refers to a
  constructed filter.
\<close>

theorem register_allocation_failure:
  assumes found: "registry_entry s (oid, att) = Some entry"
    and attached: "bloom_shared_state s"
    and old: "entry_filter entry = Addr a" "heap s a = Some obj"
    and failure: "\<not> object_alloc_ok env \<or>
       OctoBloomFilter_ctor fp (bits_alloc_ok env) n p = Inl AllocationFailure"
  shows "\<exists>s' entry'. register_bloom_filter fp env s oid att n p = (Inl AllocationFailure, s') \<and>
     registry_keys s' = registry_keys s \<and>
     registry_entry s' = (registry_entry s)((oid, att) \<mapsto> entry') \<and>
     entry_expected_count entry' = entry_expected_count entry \<and>
     entry_false_positive_rate entry' = entry_false_positive_rate entry \<and>
     current_count entry' = current_count entry \<and>
     is_valid entry' = is_valid entry \<and>
     \<not> functional s' (Addr a) \<and> \<not> functional s' (entry_filter entry')"
proof (cases "object_alloc_ok env")
  case False
  let ?s' = "s\<lparr>heap := (heap s)(a := None)\<rparr>"
  have "register_bloom_filter fp env s oid att n p = (Inl AllocationFailure, ?s')"
    using False old
    by (simp add: register_existing_attached [OF found attached] register_found_def
        destroy_filter_def new_filter_def)
  moreover have "registry_entry ?s' = (registry_entry s)((oid, att) \<mapsto> entry)"
    using found by (auto simp: fun_eq_iff)
  moreover have "\<not> functional ?s' (Addr a)"
    by (simp add: functional_def)
  ultimately show ?thesis
    using old by (intro exI [of _ ?s'] exI [of _ entry]) simp
next
  case True
  with failure have ctor: "OctoBloomFilter_ctor fp (bits_alloc_ok env) n p = Inl AllocationFailure"
    by simp
  let ?entry' = "entry\<lparr>entry_filter := Addr (next_addr s)\<rparr>"
  let ?s' = "put_entry (s\<lparr>heap := (heap s)(a := None, next_addr s \<mapsto> Unconstructed),
                          next_addr := next_addr s + 1\<rparr>) (oid, att) ?entry'"
  from found have sh: "shmem s \<noteq> None" by (rule registry_entry_shmem)
  have "register_bloom_filter fp env s oid att n p = (Inl AllocationFailure, ?s')"
    using True old ctor
    by (simp add: register_existing_attached [OF found attached] register_found_def
        destroy_filter_def new_filter_def Let_def)
  moreover have "registry_keys ?s' = registry_keys s"
    using found by simp
  moreover have "registry_entry ?s' = (registry_entry s)((oid, att) \<mapsto> ?entry')"
    using sh by simp
  moreover have "\<not> functional ?s' (Addr a)" "\<not> functional ?s' (entry_filter ?entry')"
    by (simp_all add: functional_def)
  ultimately show ?thesis
    by (intro exI [of _ ?s'] exI [of _ ?entry']) simp
qed

theorem register_allocation_failure_witness:
  "registry_entry sample_state (16384, 1) = Some sample_entry \<and>
   bloom_shared_state sample_state \<and>
   entry_filter sample_entry = Addr 0 \<and>
   heap sample_state 0 = Some (Constructed sample_filter) \<and>
   \<not> object_alloc_ok (sample_env\<lparr>object_alloc_ok := False\<rparr>) \<and>
   (\<exists>s' entry'.
      register_bloom_filter sample_fp (sample_env\<lparr>object_alloc_ok := False\<rparr>) sample_state
        16384 1 4 fp_tenth = (Inl AllocationFailure, s') \<and>
      registry_keys s' = registry_keys sample_state \<and>
      registry_entry s' = (registry_entry sample_state)((16384, 1) \<mapsto> entry') \<and>
      entry_expected_count entry' = entry_expected_count sample_entry \<and>
      entry_false_positive_rate entry' = entry_false_positive_rate sample_entry \<and>
      current_count entry' = current_count sample_entry \<and>
      is_valid entry' = is_valid sample_entry \<and>
      \<not> functional s' (Addr 0) \<and> \<not> functional s' (entry_filter entry'))"
proof -
  have f: "\<not> object_alloc_ok (sample_env\<lparr>object_alloc_ok := False\<rparr>)"
    by simp
  then have "\<not> object_alloc_ok (sample_env\<lparr>object_alloc_ok := False\<rparr>) \<or>
      OctoBloomFilter_ctor sample_fp (bits_alloc_ok (sample_env\<lparr>object_alloc_ok := False\<rparr>))
        4 fp_tenth = Inl AllocationFailure"
    by (rule disjI1)
  from sample_registered sample_attached sample_entry_filter sample_heap f
    register_allocation_failure [OF sample_registered sample_attached sample_entry_filter
      sample_heap this]
  show ?thesis by blast
qed

text \<open>
  Claim C8 (re-registration). For a key that already has an entry with a filter, a
  register call succeeds when its allocations and the constructor do, and a successful
  call leaves the same keys in the table (no second entry; keys that were distinct stay
  distinct, as they do under every call by \<open>register_keys_distinct\<close>), frees the old
  filter object, constructs one new filter from the given expected count and
  false-positive rate at a new address, stores that address, the two parameters, an
  observed count of 0 and \<open>is_valid = true\<close> in the entry, and returns true.
\<close>

theorem register_replaces:
  assumes found: "registry_entry s (oid, att) = Some entry"
    and old: "entry_filter entry = Addr a" "heap s a = Some obj"
  shows
    "(object_alloc_ok env \<and> (bloom_shared_state s \<or> shmem_ok env) \<and>
      OctoBloomFilter_ctor fp (bits_alloc_ok env) n p = Inr f \<longrightarrow>
        (\<exists>s1. register_bloom_filter fp env s oid att n p = (Inr True, s1))) \<and>
     (register_bloom_filter fp env s oid att n p = (Inr True, s') \<longrightarrow>
        (\<exists>g. OctoBloomFilter_ctor fp (bits_alloc_ok env) n p = Inr g \<and>
           registry_keys s' = registry_keys s \<and>
           registry_entry s' =
             (registry_entry s)((oid, att) \<mapsto>
                entry\<lparr>entry_filter := Addr (next_addr s), entry_expected_count := n,
                      entry_false_positive_rate := p, current_count := 0, is_valid := True\<rparr>) \<and>
           heap s' = (heap s)(a := None, next_addr s \<mapsto> Constructed g) \<and>
           bloom_shared_state s' \<and>
           (distinct (registry_keys s) \<longrightarrow> distinct (registry_keys s'))))"
proof (intro conjI impI)
  assume "object_alloc_ok env \<and> (bloom_shared_state s \<or> shmem_ok env) \<and>
      OctoBloomFilter_ctor fp (bits_alloc_ok env) n p = Inr f"
  then show "\<exists>s1. register_bloom_filter fp env s oid att n p = (Inr True, s1)"
    using register_existing_succeeds [OF found old, of env fp n p f] by blast
next
  assume ok: "register_bloom_filter fp env s oid att n p = (Inr True, s')"
  from register_replaces_existing [OF found ok old]
  obtain g where g: "OctoBloomFilter_ctor fp (bits_alloc_ok env) n p = Inr g"
    "registry_keys s' = registry_keys s"
    "registry_entry s' =
       (registry_entry s)((oid, att) \<mapsto>
          entry\<lparr>entry_filter := Addr (next_addr s), entry_expected_count := n,
                entry_false_positive_rate := p, current_count := 0, is_valid := True\<rparr>)"
    "heap s' = (heap s)(a := None, next_addr s \<mapsto> Constructed g)"
    "bloom_shared_state s'"
    by blast
  from g(2) have "distinct (registry_keys s) \<longrightarrow> distinct (registry_keys s')"
    by simp
  with g show "\<exists>g. OctoBloomFilter_ctor fp (bits_alloc_ok env) n p = Inr g \<and>
           registry_keys s' = registry_keys s \<and>
           registry_entry s' =
             (registry_entry s)((oid, att) \<mapsto>
                entry\<lparr>entry_filter := Addr (next_addr s), entry_expected_count := n,
                      entry_false_positive_rate := p, current_count := 0, is_valid := True\<rparr>) \<and>
           heap s' = (heap s)(a := None, next_addr s \<mapsto> Constructed g) \<and>
           bloom_shared_state s' \<and>
           (distinct (registry_keys s) \<longrightarrow> distinct (registry_keys s'))"
    by blast
qed

theorem register_replaces_witness:
  "registry_entry sample_state (16384, 1) = Some sample_entry \<and>
   entry_filter sample_entry = Addr 0 \<and>
   heap sample_state 0 = Some (Constructed sample_filter) \<and>
   object_alloc_ok sample_env \<and> (bloom_shared_state sample_state \<or> shmem_ok sample_env) \<and>
   OctoBloomFilter_ctor sample_fp (bits_alloc_ok sample_env) 4 fp_tenth = Inr sample_filter \<and>
   (\<exists>s1. register_bloom_filter sample_fp sample_env sample_state 16384 1 4 fp_tenth = (Inr True, s1)) \<and>
   register_bloom_filter sample_fp sample_env sample_state 16384 1 4 fp_tenth =
     (Inr True, replaced_state) \<and>
   (\<exists>g. OctoBloomFilter_ctor sample_fp (bits_alloc_ok sample_env) 4 fp_tenth = Inr g \<and>
      registry_keys replaced_state = registry_keys sample_state \<and>
      registry_entry replaced_state =
        (registry_entry sample_state)((16384, 1) \<mapsto>
           sample_entry\<lparr>entry_filter := Addr (next_addr sample_state), entry_expected_count := 4,
                 entry_false_positive_rate := fp_tenth, current_count := 0, is_valid := True\<rparr>) \<and>
      heap replaced_state = (heap sample_state)(0 := None, next_addr sample_state \<mapsto> Constructed g) \<and>
      bloom_shared_state replaced_state \<and>
      (distinct (registry_keys sample_state) \<longrightarrow> distinct (registry_keys replaced_state)))"
proof -
  have e: "object_alloc_ok sample_env" "bloom_shared_state sample_state \<or> shmem_ok sample_env"
    by (simp_all add: sample_env_def)
  have c: "OctoBloomFilter_ctor sample_fp (bits_alloc_ok sample_env) 4 fp_tenth = Inr sample_filter"
    by (simp add: sample_env_def sample_ctor)
  from sample_registered sample_entry_filter sample_heap e c second_registration
    register_replaces [OF sample_registered sample_entry_filter sample_heap,
      of sample_env sample_fp 4 fp_tenth sample_filter replaced_state]
  show ?thesis by blast
qed






end
